theory Spec2Isabelle
  imports Main "HOL-Library.Sublist" "HOL-Library.Word" "HOL-Library.AList"
begin

section \<open>Python values used by the scanner bot\<close>

text \<open>
  A Python \<open>str\<close> is a sequence of Unicode code points and \<open>len\<close> counts code points,
  so text is a list of code point numbers. \<open>lit\<close> embeds an ASCII literal of the source.
\<close>

type_synonym pystr = "nat list"

definition lit :: "string \<Rightarrow> pystr" where
  "lit cs = map of_char cs"

text \<open>
  The exceptions of the model; \<open>LibraryError\<close> stands for any exception raised inside a call
  into OpenCV or pyzbar, \<open>AttributeError\<close> is raised by reading a name a class does not have.
\<close>

datatype py_error = IndexError | ValueError | AttributeError | LibraryError

text \<open>Sequencing of computations that may raise: the first exception propagates.\<close>

definition bind_err :: "py_error + 'a \<Rightarrow> ('a \<Rightarrow> py_error + 'b) \<Rightarrow> py_error + 'b" where
  "bind_err m f = (case m of Inl e \<Rightarrow> Inl e | Inr v \<Rightarrow> f v)"

text \<open>\<open>xs[i]\<close> for a non-negative index: IndexError outside the sequence.\<close>

definition getitem :: "'a list \<Rightarrow> nat \<Rightarrow> py_error + 'a" where
  "getitem xs i = (if i < length xs then Inr (xs ! i) else Inl IndexError)"

text \<open>\<open>xs[i:j]\<close> for non-negative bounds: never raises, clips at the end.\<close>

definition slice :: "'a list \<Rightarrow> nat \<Rightarrow> nat \<Rightarrow> 'a list" where
  "slice xs i j = take (j - i) (drop i xs)"

text \<open>\<open>str(n)\<close> for a non-negative integer: its decimal digits.\<close>

function str_nat :: "nat \<Rightarrow> pystr" where
  "str_nat n = (if n < 10 then [48 + n] else str_nat (n div 10) @ [48 + n mod 10])"
  by pat_completeness auto
termination
  by (relation "measure id") auto

declare str_nat.simps [simp del]

text \<open>
  \<open>s.find(sep)\<close>: the index of the first occurrence of \<open>sep\<close> in \<open>s\<close>, \<open>None\<close> where
  Python returns -1.
\<close>

fun find_sub :: "'a list \<Rightarrow> 'a list \<Rightarrow> nat option" where
  "find_sub sep [] = (if sep = [] then Some 0 else None)"
| "find_sub sep (x # xs) =
     (if prefix sep (x # xs) then Some 0 else map_option Suc (find_sub sep xs))"

lemma find_sub_bound: "find_sub sep xs = Some i \<Longrightarrow> i + length sep \<le> length xs"
proof (induction xs arbitrary: i)
  case Nil
  then show ?case by (simp split: if_splits)
next
  case (Cons x xs)
  show ?case
  proof (cases "prefix sep (x # xs)")
    case True
    with Cons.prems show ?thesis by (auto dest: prefix_length_le)
  next
    case False
    with Cons.prems obtain j where "find_sub sep xs = Some j" "i = Suc j" by auto
    with Cons.IH show ?thesis by simp
  qed
qed

text \<open>
  \<open>s.split(sep)\<close> for a non-empty separator: cut at the first occurrence, then split what
  follows it; occurrences are found left to right and do not overlap.
\<close>

function split_at :: "'a list \<Rightarrow> 'a list \<Rightarrow> 'a list list" where
  "split_at sep xs =
     (if sep = [] then [xs]
      else case find_sub sep xs of
             None \<Rightarrow> [xs]
           | Some i \<Rightarrow> take i xs # split_at sep (drop (i + length sep) xs))"
  by pat_completeness auto
termination
proof (relation "measure (\<lambda>(sep, xs). length xs)")
  show "wf (measure (\<lambda>(sep, xs). length xs))" by simp
next
  fix sep xs :: "'a list" and i
  assume "sep \<noteq> []" "find_sub sep xs = Some i"
  then have "i + length sep \<le> length xs" "0 < length sep"
    by (auto dest: find_sub_bound)
  then have "length xs - (i + length sep) < length xs"
    by arith
  then show "((sep, drop (i + length sep) xs), (sep, xs)) \<in> measure (\<lambda>(sep, xs). length xs)"
    by simp
qed

declare split_at.simps [simp del]

text \<open>\<open>s.split(sep)\<close>: ValueError for the empty separator.\<close>

definition split :: "'a list \<Rightarrow> 'a list \<Rightarrow> py_error + 'a list list" where
  "split xs sep = (if sep = [] then Inl ValueError else Inr (split_at sep xs))"

text \<open>\<open>d.get(key, default)\<close> on a dictionary kept as an association list.\<close>

definition dict_get :: "('k \<times> 'v) list \<Rightarrow> 'k \<Rightarrow> 'v \<Rightarrow> 'v" where
  "dict_get d key fallback = (case map_of d key of Some v \<Rightarrow> v | None \<Rightarrow> fallback)"

section \<open>Text from payload bytes\<close>

type_synonym byte = "8 word"

text \<open>
  \<open>bytes.decode('utf-8', errors=...)\<close>, after the Unicode standard and the Python
  documentation of the error handlers. The decoder reads the well-formed UTF-8 sequence at
  the current position and emits its code point; where there is none it calls the error
  handler and resumes behind the offending bytes. The handler \<open>ignore\<close>, which the source
  passes, emits nothing. The bytes it skips beyond the first are continuation bytes, which
  start no sequence, so the text is the same when one byte is skipped at a time, as here.
  The handler \<open>replace\<close> emits U+FFFD; it is here for comparison only, with one U+FFFD for
  every skipped byte. Well-formed sequences are those of the Unicode standard: no overlong
  forms, no surrogates, nothing above U+10FFFF.
\<close>

datatype error_handler = Ignore | Replace

definition continuation :: "nat \<Rightarrow> bool" where
  "continuation b \<longleftrightarrow> 128 \<le> b \<and> b < 192"

definition second_of_3 :: "nat \<Rightarrow> nat \<Rightarrow> bool" where
  "second_of_3 b0 b1 \<longleftrightarrow>
     (if b0 = 224 then 160 \<le> b1 \<and> b1 < 192
      else if b0 = 237 then 128 \<le> b1 \<and> b1 < 160
      else continuation b1)"

definition second_of_4 :: "nat \<Rightarrow> nat \<Rightarrow> bool" where
  "second_of_4 b0 b1 \<longleftrightarrow>
     (if b0 = 240 then 144 \<le> b1 \<and> b1 < 192
      else if b0 = 244 then 128 \<le> b1 \<and> b1 < 144
      else continuation b1)"

text \<open>
  The well-formed sequence at the head of the bytes, if there is one: its code point and
  its length.
\<close>

definition utf8_step :: "nat list \<Rightarrow> (nat \<times> nat) option" where
  "utf8_step bs =
     (case bs of
        [] \<Rightarrow> None
      | b0 # r0 \<Rightarrow>
          if b0 < 128 then Some (b0, 1)
          else if 194 \<le> b0 \<and> b0 < 224 then
            (case r0 of
               b1 # _ \<Rightarrow>
                 if continuation b1 then Some ((b0 - 192) * 64 + (b1 - 128), 2) else None
             | _ \<Rightarrow> None)
          else if 224 \<le> b0 \<and> b0 < 240 then
            (case r0 of
               b1 # b2 # _ \<Rightarrow>
                 if second_of_3 b0 b1 \<and> continuation b2
                 then Some ((b0 - 224) * 4096 + (b1 - 128) * 64 + (b2 - 128), 3)
                 else None
             | _ \<Rightarrow> None)
          else if 240 \<le> b0 \<and> b0 < 245 then
            (case r0 of
               b1 # b2 # b3 # _ \<Rightarrow>
                 if second_of_4 b0 b1 \<and> continuation b2 \<and> continuation b3
                 then Some ((b0 - 240) * 262144 + (b1 - 128) * 4096
                            + (b2 - 128) * 64 + (b3 - 128), 4)
                 else None
             | _ \<Rightarrow> None)
          else None)"

fun substitute :: "error_handler \<Rightarrow> pystr" where
  "substitute Ignore = []"
| "substitute Replace = [65533]"

fun utf8_decode :: "error_handler \<Rightarrow> nat list \<Rightarrow> pystr" where
  "utf8_decode h [] = []"
| "utf8_decode h (b # bs) =
     (case utf8_step (b # bs) of
        Some (c, n) \<Rightarrow> c # utf8_decode h (drop (n - 1) bs)
      | None \<Rightarrow> substitute h @ utf8_decode h bs)"

definition decode_utf8 :: "byte list \<Rightarrow> error_handler \<Rightarrow> pystr" where
  "decode_utf8 bs h = utf8_decode h (map unat bs)"

text \<open>
  The payload text as the specification words it, for comparison with the source: invalid
  bytes are replaced by the replacement character.
\<close>

definition spec_payload_text :: "byte list \<Rightarrow> pystr" where
  "spec_payload_text bs = decode_utf8 bs Replace"

text \<open>The UTF-8 encoding of a code point, to relate decoded text to the bytes read.\<close>

definition utf8_encode :: "nat \<Rightarrow> nat list" where
  "utf8_encode c =
     (if c < 128 then [c]
      else if c < 2048 then [192 + c div 64, 128 + c mod 64]
      else if c < 65536 then [224 + c div 4096, 128 + c div 64 mod 64, 128 + c mod 64]
      else [240 + c div 262144, 128 + c div 4096 mod 64, 128 + c div 64 mod 64, 128 + c mod 64])"

text \<open>The code points that have a UTF-8 encoding: all up to U+10FFFF but the surrogates.\<close>

definition scalar_value :: "nat \<Rightarrow> bool" where
  "scalar_value c \<longleftrightarrow> c < 1114112 \<and> \<not> (55296 \<le> c \<and> c < 57344)"

section \<open>The libraries behind the decoder\<close>

text \<open>
  A numpy image array as OpenCV hands it out: two-dimensional \<open>(rows, cols)\<close> for a
  single-channel image, three-dimensional \<open>(rows, cols, channels)\<close> otherwise, with
  \<open>uint8\<close> samples in row-major order.
\<close>

datatype array_shape = Shape2 nat nat | Shape3 nat nat nat

record ndarray =
  shape :: array_shape
  samples :: "byte list"

fun ndim :: "array_shape \<Rightarrow> nat" where
  "ndim (Shape2 r c) = 2"
| "ndim (Shape3 r c k) = 3"

fun shape_0 :: "array_shape \<Rightarrow> nat" where
  "shape_0 (Shape2 r c) = r"
| "shape_0 (Shape3 r c k) = r"

fun shape_1 :: "array_shape \<Rightarrow> nat" where
  "shape_1 (Shape2 r c) = c"
| "shape_1 (Shape3 r c k) = c"

text \<open>\<open>shape[2]\<close>: IndexError on a two-dimensional array.\<close>

fun shape_2 :: "array_shape \<Rightarrow> py_error + nat" where
  "shape_2 (Shape2 r c) = Inl IndexError"
| "shape_2 (Shape3 r c k) = Inr k"

text \<open>
  The module \<open>cv2\<close> is a parameter of the model: the constants and the functions the source
  uses. \<open>imdecode\<close> returns \<open>None\<close> for a buffer that is no image; every function may raise.
  \<open>threshold\<close> returns the threshold it used and the image.
\<close>

record cv2 =
  IMREAD_COLOR :: int
  COLOR_BGR2GRAY :: int
  ADAPTIVE_THRESH_GAUSSIAN_C :: int
  THRESH_BINARY :: int
  THRESH_OTSU :: int
  imdecode :: "byte list \<Rightarrow> int \<Rightarrow> py_error + ndarray option"
  cvtColor :: "ndarray \<Rightarrow> int \<Rightarrow> py_error + ndarray"
  equalizeHist :: "ndarray \<Rightarrow> py_error + ndarray"
  adaptiveThreshold :: "ndarray \<Rightarrow> int \<Rightarrow> int \<Rightarrow> int \<Rightarrow> int \<Rightarrow> int \<Rightarrow> py_error + ndarray"
  threshold :: "ndarray \<Rightarrow> int \<Rightarrow> int \<Rightarrow> int \<Rightarrow> py_error + int \<times> ndarray"

text \<open>
  The value a detection carries as its \<open>type\<close>, which is also what the keys of the table of
  type names are compared with: a member of the enumeration \<open>ZBarSymbol\<close>, which compares by
  its integer value, or a \<open>str\<close>, which equals no member. pyzbar sets \<open>type\<close> to the name of
  the symbol type, a \<open>str\<close>.
\<close>

datatype symbol_type = Member int | Text pystr

record zbar_rect =
  rect_left :: int
  rect_top :: int
  rect_width :: int
  rect_height :: int

text \<open>
  A detection returned by \<open>pyzbar.decode\<close>. \<open>obj_quality\<close> is \<open>None\<close> where the object has no
  attribute \<open>quality\<close>.
\<close>

record decoded =
  obj_data :: "byte list"
  obj_type :: symbol_type
  obj_rect :: zbar_rect
  obj_polygon :: "(int \<times> int) list"
  obj_quality :: "int option"

text \<open>
  The module \<open>pyzbar\<close> is a parameter of the model as well: the scan of one image, the
  members of \<open>ZBarSymbol\<close> by name (\<open>None\<close> for a name the enumeration does not have, where
  Python raises AttributeError), and how a member prints under \<open>str\<close> and inside an
  f-string.
\<close>

record pyzbar =
  decode :: "ndarray \<Rightarrow> py_error + decoded list"
  ZBarSymbol :: "string \<Rightarrow> int option"
  member_str :: "int \<Rightarrow> pystr"
  member_format :: "int \<Rightarrow> pystr"

definition symbol_str :: "pyzbar \<Rightarrow> symbol_type \<Rightarrow> pystr" where
  "symbol_str zb t = (case t of Member v \<Rightarrow> member_str zb v | Text s \<Rightarrow> s)"

definition symbol_format :: "pyzbar \<Rightarrow> symbol_type \<Rightarrow> pystr" where
  "symbol_format zb t = (case t of Member v \<Rightarrow> member_format zb v | Text s \<Rightarrow> s)"

text \<open>
  The members pyzbar declares for \<open>ZBarSymbol\<close> (in its module \<open>wrapper\<close>), with their values.
  \<open>DATAMATRIX\<close> and \<open>AZTEC\<close> are not among them.
\<close>

definition pyzbar_members :: "(string \<times> int) list" where
  "pyzbar_members =
     [(''NONE'', 0), (''PARTIAL'', 1), (''EAN2'', 2), (''EAN5'', 5), (''EAN8'', 8),
      (''UPCE'', 9), (''ISBN10'', 10), (''UPCA'', 12), (''EAN13'', 13), (''ISBN13'', 14),
      (''COMPOSITE'', 15), (''I25'', 25), (''DATABAR'', 34), (''DATABAR_EXP'', 35),
      (''CODABAR'', 38), (''CODE39'', 39), (''PDF417'', 57), (''QRCODE'', 64),
      (''SQCODE'', 80), (''CODE93'', 93), (''CODE128'', 128)]"

section \<open>The decoder (class CodeDecoder)\<close>

text \<open>
  \<open>get_barcode_type_name\<close> builds its table anew on every call. The items of the dictionary
  literal are evaluated in the order written: each key reads a member of \<open>ZBarSymbol\<close>, and
  the first name the enumeration does not have raises AttributeError.
\<close>

definition type_mapping_items :: "(string \<times> pystr) list" where
  "type_mapping_items =
     [(''EAN8'', lit ''EAN-8''),
      (''EAN13'', lit ''EAN-13''),
      (''UPCA'', lit ''UPC-A''),
      (''UPCE'', lit ''UPC-E''),
      (''CODE39'', lit ''Code 39''),
      (''CODE93'', lit ''Code 93''),
      (''CODE128'', lit ''Code 128''),
      (''CODABAR'', lit ''Codabar''),
      (''DATABAR'', lit ''DataBar''),
      (''DATABAR_EXP'', lit ''DataBar Expanded''),
      (''I25'', lit ''Interleaved 2 of 5''),
      (''QRCODE'', lit ''QR Code''),
      (''PDF417'', lit ''PDF417''),
      (''DATAMATRIX'', lit ''Data Matrix''),
      (''AZTEC'', lit ''Aztec Code'')]"

fun type_mapping ::
  "pyzbar \<Rightarrow> (string \<times> pystr) list \<Rightarrow> (symbol_type \<times> pystr) list
   \<Rightarrow> py_error + (symbol_type \<times> pystr) list" where
  "type_mapping zb [] d = Inr d"
| "type_mapping zb ((attr, name) # items) d =
     (case ZBarSymbol zb attr of
        None \<Rightarrow> Inl AttributeError
      | Some v \<Rightarrow> type_mapping zb items (AList.update (Member v) name d))"

definition get_barcode_type_name :: "pyzbar \<Rightarrow> symbol_type \<Rightarrow> py_error + pystr" where
  "get_barcode_type_name zb symbol_type =
     bind_err (type_mapping zb type_mapping_items []) (\<lambda>d.
       Inr (dict_get d symbol_type
              (lit ''Type inconnu ('' @ symbol_format zb symbol_type @ lit '')'')))"

definition preprocess_image :: "cv2 \<Rightarrow> ndarray \<Rightarrow> py_error + ndarray list" where
  "preprocess_image cv img =
     bind_err (if ndim (shape img) = 3 then cvtColor cv img (COLOR_BGR2GRAY cv)
               else Inr img) (\<lambda>gray.
     bind_err (equalizeHist cv gray) (\<lambda>enhanced.
     bind_err (adaptiveThreshold cv gray 255 (ADAPTIVE_THRESH_GAUSSIAN_C cv)
                 (THRESH_BINARY cv) 11 2) (\<lambda>thresh.
     bind_err (threshold cv gray 0 255 (THRESH_BINARY cv + THRESH_OTSU cv)) (\<lambda>(_, otsu).
       Inr [img, gray, enhanced, thresh, otsu]))))"

text \<open>An element of \<open>all_decoded\<close>; the quality is a number or the text \<open>N/A\<close>.\<close>

datatype quality = Quality int | NA

record code_rect =
  rect_x :: int
  rect_y :: int
  width :: int
  height :: int

record code =
  code_data :: pystr
  code_type :: pystr
  raw_type :: pystr
  code_quality :: quality
  rect :: code_rect
  polygon :: "(int \<times> int) list"
  preprocessing_step :: nat

text \<open>
  The dictionary appended for a detection. Its items are evaluated in the order written,
  so an exception of the name lookup leaves no entry behind.
\<close>

definition new_code :: "pyzbar \<Rightarrow> nat \<Rightarrow> decoded \<Rightarrow> py_error + code" where
  "new_code zb i obj =
     bind_err (get_barcode_type_name zb (obj_type obj)) (\<lambda>type_name.
       Inr \<lparr>code_data = decode_utf8 (obj_data obj) Ignore,
            code_type = type_name,
            raw_type = symbol_str zb (obj_type obj),
            code_quality = (case obj_quality obj of Some q \<Rightarrow> Quality q | None \<Rightarrow> NA),
            rect = \<lparr>rect_x = rect_left (obj_rect obj), rect_y = rect_top (obj_rect obj),
                    width = rect_width (obj_rect obj), height = rect_height (obj_rect obj)\<rparr>,
            polygon = map (\<lambda>(x, y). (x, y)) (obj_polygon obj),
            preprocessing_step = i\<rparr>)"

text \<open>
  The duplicate test \<open>any(... for existing in all_decoded)\<close>: for each entry in turn the
  payload text is compared first, and only where it is equal is the type name looked up
  and compared; the test stops at the first entry that matches.
\<close>

fun any_existing :: "pyzbar \<Rightarrow> decoded \<Rightarrow> code list \<Rightarrow> py_error + bool" where
  "any_existing zb obj [] = Inr False"
| "any_existing zb obj (existing # others) =
     (if code_data existing = decode_utf8 (obj_data obj) Ignore
      then bind_err (get_barcode_type_name zb (obj_type obj)) (\<lambda>type_name.
             if code_type existing = type_name then Inr True
             else any_existing zb obj others)
      else any_existing zb obj others)"

text \<open>
  The inner loop over the detections of one variant. It runs inside the \<open>try\<close>: an exception
  ends it, and \<open>all_decoded\<close> keeps what was appended before. The result is the exception,
  if any, and \<open>all_decoded\<close>.
\<close>

fun add_decoded ::
  "pyzbar \<Rightarrow> nat \<Rightarrow> decoded list \<Rightarrow> code list \<Rightarrow> py_error option \<times> code list" where
  "add_decoded zb i [] all_decoded = (None, all_decoded)"
| "add_decoded zb i (obj # objs) all_decoded =
     (case any_existing zb obj all_decoded of
        Inl e \<Rightarrow> (Some e, all_decoded)
      | Inr True \<Rightarrow> add_decoded zb i objs all_decoded
      | Inr False \<Rightarrow>
          (case new_code zb i obj of
             Inl e \<Rightarrow> (Some e, all_decoded)
           | Inr entry \<Rightarrow> add_decoded zb i objs (all_decoded @ [entry])))"

text \<open>
  The outer loop over the enumerated variants. An exception of the scan or of the inner
  loop is caught (and logged), and the loop goes on with the next variant.
\<close>

fun scan_variants :: "pyzbar \<Rightarrow> (nat \<times> ndarray) list \<Rightarrow> code list \<Rightarrow> code list" where
  "scan_variants zb [] all_decoded = all_decoded"
| "scan_variants zb ((i, proc_img) # rest) all_decoded =
     (case decode zb proc_img of
        Inl e \<Rightarrow> scan_variants zb rest all_decoded
      | Inr decoded_objects \<Rightarrow>
          scan_variants zb rest (snd (add_decoded zb i decoded_objects all_decoded)))"

text \<open>
  The dictionary \<open>decode_codes\<close> returns: keys in insertion order, an assignment to a key
  that is present keeps its place.
\<close>

record image_info =
  dimensions :: pystr
  channels :: nat

datatype result_value =
    Message pystr | Codes "code list" | Image_info image_info | Total nat

type_synonym result = "(string \<times> result_value) list"

definition decode_codes :: "cv2 \<Rightarrow> pyzbar \<Rightarrow> byte list \<Rightarrow> py_error + result" where
  "decode_codes cv zb image_data =
     bind_err (imdecode cv image_data (IMREAD_COLOR cv)) (\<lambda>decoded_image.
       case decoded_image of
         None \<Rightarrow> Inr [(''error'', Message (lit ''Impossible de lire l'image''))]
       | Some img \<Rightarrow>
           bind_err (if ndim (shape img) = 3 then shape_2 (shape img) else Inr 1) (\<lambda>ch.
           let results =
                 [(''codes_found'', Codes []),
                  (''image_info'', Image_info
                     \<lparr>dimensions = str_nat (shape_1 (shape img)) @ lit ''x''
                                     @ str_nat (shape_0 (shape img)),
                      channels = ch\<rparr>)]
           in bind_err (preprocess_image cv img) (\<lambda>processed_images.
              let all_decoded = scan_variants zb (enumerate 0 processed_images) [];
                  results = AList.update ''codes_found'' (Codes all_decoded) results;
                  results = AList.update ''total_codes'' (Total (length all_decoded)) results
              in Inr results)))"

section \<open>Notions of the specification\<close>

text \<open>The deduplication key of a report entry: payload text and symbology name.\<close>

definition dedup_key :: "code \<Rightarrow> pystr \<times> pystr" where
  "dedup_key c = (code_data c, code_type c)"

text \<open>
  Pixel grids: a colour image as \<open>imdecode\<close> with \<open>IMREAD_COLOR\<close> produces it (three
  channels), or a single-channel image; not empty, one sample per channel and pixel.
\<close>

definition color_image :: "ndarray \<Rightarrow> bool" where
  "color_image img \<longleftrightarrow>
     (case shape img of
        Shape3 r c k \<Rightarrow> 0 < r \<and> 0 < c \<and> k = 3 \<and> length (samples img) = r * c * 3
      | Shape2 r c \<Rightarrow> False)"

definition gray_image :: "ndarray \<Rightarrow> bool" where
  "gray_image img \<longleftrightarrow>
     (case shape img of
        Shape2 r c \<Rightarrow> 0 < r \<and> 0 < c \<and> length (samples img) = r * c
      | Shape3 r c k \<Rightarrow> False)"

definition pixel_grid :: "ndarray \<Rightarrow> bool" where
  "pixel_grid img \<longleftrightarrow> color_image img \<or> gray_image img"

definition same_size :: "ndarray \<Rightarrow> ndarray \<Rightarrow> bool" where
  "same_size a b \<longleftrightarrow>
     shape_0 (shape a) = shape_0 (shape b) \<and> shape_1 (shape a) = shape_1 (shape b)"

text \<open>
  What the model takes from the OpenCV documentation: \<open>imdecode\<close> with \<open>IMREAD_COLOR\<close>
  returns colour images only; the conversion to grey accepts every colour image, and the
  three operations on grey images accept every grey image, with the arguments the source
  passes; each returns a grey image of the size of its input.
\<close>

definition opencv_contract :: "cv2 \<Rightarrow> bool" where
  "opencv_contract cv \<longleftrightarrow>
     (\<forall>buf img. imdecode cv buf (IMREAD_COLOR cv) = Inr (Some img) \<longrightarrow> color_image img)
   \<and> (\<forall>img. color_image img \<longrightarrow>
        (\<exists>g. cvtColor cv img (COLOR_BGR2GRAY cv) = Inr g \<and> gray_image g \<and> same_size g img))
   \<and> (\<forall>g. gray_image g \<longrightarrow>
        (\<exists>e. equalizeHist cv g = Inr e \<and> gray_image e \<and> same_size e g))
   \<and> (\<forall>g. gray_image g \<longrightarrow>
        (\<exists>t. adaptiveThreshold cv g 255 (ADAPTIVE_THRESH_GAUSSIAN_C cv) (THRESH_BINARY cv) 11 2
               = Inr t \<and> gray_image t \<and> same_size t g))
   \<and> (\<forall>g. gray_image g \<longrightarrow>
        (\<exists>v t. threshold cv g 0 255 (THRESH_BINARY cv + THRESH_OTSU cv) = Inr (v, t)
               \<and> gray_image t \<and> same_size t g))"

section \<open>A small instance of the libraries\<close>

text \<open>
  An instance of the two modules on which the decoder can be run. Its image format is two
  bytes for rows and columns followed by the samples; like OpenCV, which asserts that the
  buffer is not empty, its \<open>imdecode\<close> raises on the empty buffer. Grey conversion keeps the
  first rows times columns samples, the adaptive threshold returns a white image, the
  global threshold whitens every sample that is not zero. Its scanner finds one QR code in
  a colour image; in a grey image that is not all white it finds the same QR payload at
  another place and with another quality, an EAN-13 code, and a Code 128 payload that is
  not valid UTF-8; on an all-white image it raises. As in pyzbar, the type of a detection
  is the name of its symbol type and \<open>ZBarSymbol\<close> has the members of \<open>pyzbar_members\<close>.
\<close>

definition sample_imdecode :: "byte list \<Rightarrow> int \<Rightarrow> py_error + ndarray option" where
  "sample_imdecode buf flags =
     (case buf of
        [] \<Rightarrow> Inl LibraryError
      | r # c # px \<Rightarrow>
          if 0 < unat r \<and> 0 < unat c \<and> length px = unat r * unat c * 3
          then Inr (Some \<lparr>shape = Shape3 (unat r) (unat c) 3, samples = px\<rparr>)
          else Inr None
      | _ \<Rightarrow> Inr None)"

definition sample_cvtColor :: "ndarray \<Rightarrow> int \<Rightarrow> py_error + ndarray" where
  "sample_cvtColor img code =
     (if color_image img \<and> code = 6
      then Inr \<lparr>shape = Shape2 (shape_0 (shape img)) (shape_1 (shape img)),
                samples = take (shape_0 (shape img) * shape_1 (shape img)) (samples img)\<rparr>
      else Inl LibraryError)"

definition sample_equalizeHist :: "ndarray \<Rightarrow> py_error + ndarray" where
  "sample_equalizeHist img = (if gray_image img then Inr img else Inl LibraryError)"

definition sample_adaptiveThreshold ::
  "ndarray \<Rightarrow> int \<Rightarrow> int \<Rightarrow> int \<Rightarrow> int \<Rightarrow> int \<Rightarrow> py_error + ndarray" where
  "sample_adaptiveThreshold img maxval method kind block offset =
     (if gray_image img
      then Inr (img\<lparr>samples := map (\<lambda>s. 255) (samples img)\<rparr>)
      else Inl LibraryError)"

definition sample_threshold ::
  "ndarray \<Rightarrow> int \<Rightarrow> int \<Rightarrow> int \<Rightarrow> py_error + int \<times> ndarray" where
  "sample_threshold img thresh maxval kind =
     (if gray_image img
      then Inr (0, img\<lparr>samples := map (\<lambda>s. if s = 0 then 0 else 255) (samples img)\<rparr>)
      else Inl LibraryError)"

definition sample_cv2 :: cv2 where
  "sample_cv2 =
     \<lparr>IMREAD_COLOR = 1, COLOR_BGR2GRAY = 6, ADAPTIVE_THRESH_GAUSSIAN_C = 1,
      THRESH_BINARY = 0, THRESH_OTSU = 8,
      imdecode = sample_imdecode, cvtColor = sample_cvtColor,
      equalizeHist = sample_equalizeHist, adaptiveThreshold = sample_adaptiveThreshold,
      threshold = sample_threshold\<rparr>"

definition sample_qr :: "int \<Rightarrow> int \<Rightarrow> decoded" where
  "sample_qr x q =
     \<lparr>obj_data = [0x61, 0x62, 0x63], obj_type = Text (lit ''QRCODE''),
      obj_rect = \<lparr>rect_left = x, rect_top = 0, rect_width = 1, rect_height = 1\<rparr>,
      obj_polygon = [(x, 0), (x, 1), (x + 1, 1), (x + 1, 0)], obj_quality = Some q\<rparr>"

definition sample_ean :: decoded where
  "sample_ean =
     \<lparr>obj_data = map of_nat (lit ''4006381333931''), obj_type = Text (lit ''EAN13''),
      obj_rect = \<lparr>rect_left = 0, rect_top = 0, rect_width = 1, rect_height = 1\<rparr>,
      obj_polygon = [], obj_quality = None\<rparr>"

definition sample_broken :: decoded where
  "sample_broken =
     \<lparr>obj_data = [0x61, 0xFF, 0x62], obj_type = Text (lit ''CODE128''),
      obj_rect = \<lparr>rect_left = 0, rect_top = 0, rect_width = 1, rect_height = 1\<rparr>,
      obj_polygon = [], obj_quality = Some 3\<rparr>"

definition sample_decode :: "ndarray \<Rightarrow> py_error + decoded list" where
  "sample_decode img =
     (if ndim (shape img) = 3 then Inr [sample_qr 0 1]
      else if list_all (\<lambda>s. s = 255) (samples img) then Inl LibraryError
      else Inr [sample_qr 5 9, sample_ean, sample_broken])"

definition sample_pyzbar :: pyzbar where
  "sample_pyzbar =
     \<lparr>decode = sample_decode, ZBarSymbol = map_of pyzbar_members,
      member_str = (\<lambda>v. str_nat (nat v)), member_format = (\<lambda>v. str_nat (nat v))\<rparr>"

text \<open>
  A colour image of one pixel in the format of the instance, the image it decodes to, and
  the grey and white images its preprocessing produces.
\<close>

definition sample_image_data :: "byte list" where
  "sample_image_data = [1, 1, 10, 20, 30]"

definition sample_image :: ndarray where
  "sample_image = \<lparr>shape = Shape3 1 1 3, samples = [10, 20, 30]\<rparr>"

definition sample_gray :: ndarray where
  "sample_gray = \<lparr>shape = Shape2 1 1, samples = [10]\<rparr>"

definition sample_white :: ndarray where
  "sample_white = \<lparr>shape = Shape2 1 1, samples = [255]\<rparr>"

text \<open>The report of the instance for that image: no code, although the scans find some.\<close>

definition sample_results :: result where
  "sample_results =
     [(''codes_found'', Codes []),
      (''image_info'', Image_info \<lparr>dimensions = lit ''1x1'', channels = 3\<rparr>),
      (''total_codes'', Total 0)]"

section \<open>Content analysis (class TelegramBot)\<close>

text \<open>
  Every line the two analysers emit has the shape of the f-string
  \<^verbatim>\<open>"\<bullet> **<label> :** <value>\n"\<close>; the bullet is U+2022 and the newline is U+000A.
\<close>

definition bullet :: "pystr \<Rightarrow> pystr \<Rightarrow> pystr" where
  "bullet label v = [8226] @ lit '' **'' @ label @ lit '' :** '' @ v @ [10]"

definition label_pays :: pystr where
  "label_pays = lit ''Code pays''"

definition label_fabricant :: pystr where
  "label_fabricant = lit ''Code fabricant''"

definition label_produit :: pystr where
  "label_produit = lit ''Code produit''"

text \<open>The label of the check digit; its o with circumflex is the code point U+00F4.\<close>

definition label_controle :: pystr where
  "label_controle = lit ''Chiffre de contr'' @ [244] @ lit ''le''"

definition analyze_product_code :: "pystr \<Rightarrow> py_error + pystr" where
  "analyze_product_code data =
     (if length data = 13 then
        bind_err (getitem data 12) (\<lambda>c.
          Inr (bullet label_pays (slice data 0 3)
             @ bullet label_fabricant (slice data 3 8)
             @ bullet label_produit (slice data 8 12)
             @ bullet label_controle [c]))
      else if length data = 8 then
        bind_err (getitem data 7) (\<lambda>c.
          Inr (bullet label_pays (slice data 0 2)
             @ bullet label_produit (slice data 2 7)
             @ bullet label_controle [c]))
      else Inr [])"

text \<open>The accented letters of the French words are the code points U+00E9 and U+00E8.\<close>

definition label_type :: pystr where
  "label_type = lit ''Type''"

definition label_ssid :: pystr where
  "label_ssid = lit ''SSID''"

definition label_longueur :: pystr where
  "label_longueur = lit ''Longueur''"

definition text_telephone :: pystr where
  "text_telephone = lit ''T'' @ [233] @ lit ''l'' @ [233] @ lit ''phone''"

definition text_caracteres :: pystr where
  "text_caracteres = lit '' caract'' @ [232] @ lit ''res''"

definition analyze_qr_content :: "pystr \<Rightarrow> py_error + pystr" where
  "analyze_qr_content data =
     bind_err
       (if prefix (lit ''http'') data then
          Inr (bullet label_type (lit ''URL''))
        else if prefix (lit ''mailto:'') data then
          Inr (bullet label_type (lit ''Email''))
        else if prefix (lit ''tel:'') data then
          Inr (bullet label_type text_telephone)
        else if prefix (lit ''WIFI:'') data then
          (if sublist (lit ''S:'') data then
             bind_err (split data (lit ''S:'')) (\<lambda>parts.
             bind_err (getitem parts 1) (\<lambda>part.
             bind_err (split part (lit '';'')) (\<lambda>pieces.
             bind_err (getitem pieces 0) (\<lambda>ssid.
               Inr (bullet label_type (lit ''Configuration WiFi'')
                  @ bullet label_ssid ssid)))))
           else Inr (bullet label_type (lit ''Configuration WiFi'')))
        else if prefix (lit ''BEGIN:VCARD'') data then
          Inr (bullet label_type (lit ''Carte de visite (vCard)''))
        else
          Inr (bullet label_type (lit ''Texte'')))
       (\<lambda>analysis.
          Inr (analysis @ bullet label_longueur (str_nat (length data) @ text_caracteres)))"

text \<open>
  The SSID as the specification words it, for comparison with the source: the text between
  the first \<open>S:\<close> and the following \<open>;\<close>.
\<close>

definition spec_ssid :: "pystr \<Rightarrow> pystr" where
  "spec_ssid data =
     (case find_sub (lit ''S:'') data of
        None \<Rightarrow> []
      | Some i \<Rightarrow> takeWhile (\<lambda>c. c \<noteq> 59) (drop (i + 2) data))"


section \<open>Properties of the content analysis\<close>

subsection \<open>Finding and splitting\<close>

lemma find_sub_None_iff: "find_sub sep xs = None \<longleftrightarrow> \<not> sublist sep xs"
  by (induction xs) (auto simp: sublist_Cons_right)

lemma find_sub_first:
  "\<not> sublist [a, b] ys \<Longrightarrow> a \<noteq> b \<Longrightarrow> find_sub [a, b] (ys @ a # b # zs) = Some (length ys)"
proof (induction ys)
  case Nil
  then show ?case by simp
next
  case (Cons y ys)
  then have "\<not> prefix [a, b] (y # ys)" "\<not> sublist [a, b] ys"
    by (auto simp: sublist_Cons_right)
  with Cons show ?case
    by (cases ys) auto
qed

lemma find_sub_skip:
  "\<not> sublist [a, b] ys \<Longrightarrow> c \<noteq> a \<Longrightarrow> c \<noteq> b \<Longrightarrow>
   find_sub [a, b] (ys @ c # zs) = map_option (\<lambda>j. length ys + 1 + j) (find_sub [a, b] zs)"
proof (induction ys)
  case Nil
  then show ?case by (simp add: option.map_comp comp_def)
next
  case (Cons y ys)
  then have "\<not> prefix [a, b] (y # ys)" "\<not> sublist [a, b] ys"
    by (auto simp: sublist_Cons_right)
  with Cons show ?case
    by (cases ys) (auto simp: option.map_comp comp_def)
qed

lemma split_at_nonempty: "split_at sep xs \<noteq> []"
  by (subst split_at.simps) (auto split: option.splits)

lemma hd_split_at:
  "sep \<noteq> [] \<Longrightarrow>
   hd (split_at sep xs) = (case find_sub sep xs of None \<Rightarrow> xs | Some i \<Rightarrow> take i xs)"
  by (subst split_at.simps) (simp split: option.splits)

lemma take_find_sub_char:
  "(case find_sub [c] xs of None \<Rightarrow> xs | Some i \<Rightarrow> take i xs) = takeWhile (\<lambda>x. x \<noteq> c) xs"
  by (induction xs) (auto split: option.splits)

lemma hd_split_at_char: "hd (split_at [c] xs) = takeWhile (\<lambda>x. x \<noteq> c) xs"
  by (simp add: hd_split_at take_find_sub_char)

lemma split_at_first:
  assumes "\<not> sublist [a, b] ys" "a \<noteq> b"
  shows "split_at [a, b] (ys @ a # b # zs) = ys # split_at [a, b] zs"
  using find_sub_first [OF assms, of zs]
  by (subst split_at.simps) simp

lemma takeWhile_stop:
  "c \<notin> set xs \<Longrightarrow> takeWhile (\<lambda>x. x \<noteq> c) (xs @ c # ys) = xs"
  by (induction xs) auto

text \<open>The text cut out by \<open>data.split('S:')[1].split(';')[0]\<close>.\<close>

lemma ssid_part:
  assumes a: "\<not> sublist [a, b] ssid" "a \<noteq> b" "c \<noteq> a" "c \<noteq> b" "c \<notin> set ssid"
    and rest: "rest = [] \<or> prefix [c] rest \<or> prefix [a, b] rest"
  shows "hd (split_at [c] (hd (split_at [a, b] (ssid @ rest)))) = ssid"
proof -
  consider "rest = []" | r where "rest = c # r" | r where "rest = a # b # r"
    using rest by (auto simp: prefix_def)
  then show ?thesis
  proof cases
    case 1
    with a have "find_sub [a, b] (ssid @ rest) = None"
      by (simp add: find_sub_None_iff)
    with a 1 show ?thesis
      by (auto simp: hd_split_at hd_split_at_char)
  next
    case (2 r)
    have "find_sub [a, b] (ssid @ c # r) = map_option (\<lambda>j. length ssid + 1 + j) (find_sub [a, b] r)"
      using a by (intro find_sub_skip) auto
    with a 2 show ?thesis
      by (auto simp: hd_split_at hd_split_at_char takeWhile_stop split: option.splits)
  next
    case (3 r)
    with a show ?thesis
      by (auto simp: split_at_first hd_split_at_char takeWhile_stop)
  qed
qed

lemma getitem_0: "xs \<noteq> [] \<Longrightarrow> getitem xs 0 = Inr (hd xs)"
  by (cases xs) (simp_all add: getitem_def)

lemma getitem_1: "ys \<noteq> [] \<Longrightarrow> getitem (x # ys) (Suc 0) = Inr (hd ys)"
  by (cases ys) (simp_all add: getitem_def)

lemma split_at_found:
  "sublist [a, b] data \<Longrightarrow> \<exists>p ps. split_at [a, b] data = p # ps \<and> ps \<noteq> []"
proof -
  assume "sublist [a, b] data"
  then obtain i where "find_sub [a, b] data = Some i"
    using find_sub_None_iff [of "[a, b]" data] by auto
  then show ?thesis
    by (subst split_at.simps) (simp add: split_at_nonempty)
qed

lemma ssid_chain:
  assumes "sublist [a, b] data"
  shows "bind_err (split data [a, b]) (\<lambda>parts.
         bind_err (getitem parts 1) (\<lambda>part.
         bind_err (split part [c]) (\<lambda>pieces.
         bind_err (getitem pieces 0) f))) =
         f (hd (split_at [c] (hd (tl (split_at [a, b] data)))))"
proof -
  obtain p ps where "split_at [a, b] data = p # ps" "ps \<noteq> []"
    using split_at_found [OF assms] by blast
  then show ?thesis
    by (simp add: split_def bind_err_def getitem_1 getitem_0 split_at_nonempty)
qed

lemma lit_S: "lit ''S:'' = [83, 58]" and lit_semi: "lit '';'' = [59]"
  by (simp_all add: lit_def)

subsection \<open>The WiFi branch\<close>

lemma qr_wifi_ssid:
  assumes "prefix (lit ''WIFI:'') data" "sublist (lit ''S:'') data"
  shows "analyze_qr_content data =
     Inr (bullet label_type (lit ''Configuration WiFi'')
        @ bullet label_ssid (hd (split_at [59] (hd (tl (split_at [83, 58] data)))))
        @ bullet label_longueur (str_nat (length data) @ text_caracteres))"
proof -
  from assms(1) obtain t where "data = lit ''WIFI:'' @ t"
    by (auto simp: prefix_def)
  then have "\<not> prefix (lit ''http'') data" "\<not> prefix (lit ''mailto:'') data"
    "\<not> prefix (lit ''tel:'') data"
    by (simp_all add: lit_def)
  note neg = this
  have chain: "bind_err (split data (lit ''S:'')) (\<lambda>parts.
         bind_err (getitem parts 1) (\<lambda>part.
         bind_err (split part (lit '';'')) (\<lambda>pieces.
         bind_err (getitem pieces 0) (\<lambda>ssid.
           Inr (bullet label_type (lit ''Configuration WiFi'') @ bullet label_ssid ssid))))) =
       Inr (bullet label_type (lit ''Configuration WiFi'')
          @ bullet label_ssid (hd (split_at [59] (hd (tl (split_at [83, 58] data))))))"
    using assms(2) unfolding lit_S lit_semi by (rule ssid_chain)
  show ?thesis
    unfolding analyze_qr_content_def chain using assms neg
    by (simp add: bind_err_def)
qed


lemma qr_wifi_cut:
  assumes "prefix (lit ''WIFI:'') (pre @ lit ''S:'' @ ssid @ rest)"
    and "\<not> sublist (lit ''S:'') pre"
    and "\<not> sublist (lit ''S:'') ssid" "59 \<notin> set ssid"
    and "rest = [] \<or> prefix (lit '';'') rest \<or> prefix (lit ''S:'') rest"
  shows "analyze_qr_content (pre @ lit ''S:'' @ ssid @ rest) =
     Inr (bullet label_type (lit ''Configuration WiFi'')
        @ bullet label_ssid ssid
        @ bullet label_longueur
            (str_nat (length (pre @ lit ''S:'' @ ssid @ rest)) @ text_caracteres))"
proof -
  have "split_at [83, 58] (pre @ 83 # 58 # ssid @ rest) = pre # split_at [83, 58] (ssid @ rest)"
    using assms(2) by (intro split_at_first) (simp_all add: lit_S)
  moreover have "hd (split_at [59] (hd (split_at [83, 58] (ssid @ rest)))) = ssid"
    using assms(3-5) by (intro ssid_part) (simp_all add: lit_S lit_semi)
  ultimately have "hd (split_at [59] (hd (tl (split_at [83, 58] (pre @ lit ''S:'' @ ssid @ rest))))) = ssid"
    by (simp add: lit_S)
  moreover have "sublist (lit ''S:'') (pre @ lit ''S:'' @ ssid @ rest)"
    by simp
  ultimately show ?thesis
    using qr_wifi_ssid [OF assms(1)] by simp
qed

lemma qr_wifi_plain:
  assumes "prefix (lit ''WIFI:'') data" "\<not> sublist (lit ''S:'') data"
  shows "analyze_qr_content data =
     Inr (bullet label_type (lit ''Configuration WiFi'')
        @ bullet label_longueur (str_nat (length data) @ text_caracteres))"
proof -
  from assms(1) obtain t where "data = lit ''WIFI:'' @ t"
    by (auto simp: prefix_def)
  then have "\<not> prefix (lit ''http'') data" "\<not> prefix (lit ''mailto:'') data"
    "\<not> prefix (lit ''tel:'') data"
    by (simp_all add: lit_def)
  with assms show ?thesis
    by (simp add: analyze_qr_content_def bind_err_def)
qed

lemma qr_total: "\<exists>out. analyze_qr_content data = Inr out"
proof (cases "prefix (lit ''WIFI:'') data \<and> sublist (lit ''S:'') data")
  case True
  then show ?thesis using qr_wifi_ssid by blast
next
  case False
  then show ?thesis
    by (auto simp: analyze_qr_content_def bind_err_def)
qed

lemma qr_other:
  "prefix (lit ''http'') data \<Longrightarrow> analyze_qr_content data =
     Inr (bullet label_type (lit ''URL'')
        @ bullet label_longueur (str_nat (length data) @ text_caracteres))"
  "prefix (lit ''mailto:'') data \<Longrightarrow> analyze_qr_content data =
     Inr (bullet label_type (lit ''Email'')
        @ bullet label_longueur (str_nat (length data) @ text_caracteres))"
  "prefix (lit ''tel:'') data \<Longrightarrow> analyze_qr_content data =
     Inr (bullet label_type text_telephone
        @ bullet label_longueur (str_nat (length data) @ text_caracteres))"
  "prefix (lit ''BEGIN:VCARD'') data \<Longrightarrow> analyze_qr_content data =
     Inr (bullet label_type (lit ''Carte de visite (vCard)'')
        @ bullet label_longueur (str_nat (length data) @ text_caracteres))"
  "\<not> prefix (lit ''http'') data \<Longrightarrow> \<not> prefix (lit ''mailto:'') data \<Longrightarrow>
   \<not> prefix (lit ''tel:'') data \<Longrightarrow> \<not> prefix (lit ''WIFI:'') data \<Longrightarrow>
   \<not> prefix (lit ''BEGIN:VCARD'') data \<Longrightarrow> analyze_qr_content data =
     Inr (bullet label_type (lit ''Texte'')
        @ bullet label_longueur (str_nat (length data) @ text_caracteres))"
  by (auto simp: analyze_qr_content_def bind_err_def prefix_def lit_def)

subsection \<open>QR content\<close>

text \<open>
  Claim C5 says that the SSID reported for a WiFi payload is the text between the first
  \<open>S:\<close> and the following \<open>;\<close>. The source cuts it with \<open>split('S:')[1]\<close>, which also ends at
  a second \<open>S:\<close>: for the network name \<open>BUS:1\<close>, in the payload \<open>WIFI:S:BUS:1;T:WPA;;\<close>, the
  text between the first \<open>S:\<close> and the following \<open>;\<close> is \<open>BUS:1\<close>, and the source reports
  \<open>BU\<close>.
\<close>

theorem analyze_qr_content_second_marker:
  "analyze_qr_content (lit ''WIFI:S:BUS:1;T:WPA;;'') =
     Inr (bullet label_type (lit ''Configuration WiFi'')
        @ bullet label_ssid (lit ''BU'')
        @ bullet label_longueur (lit ''20'' @ text_caracteres))
   \<and> spec_ssid (lit ''WIFI:S:BUS:1;T:WPA;;'') = lit ''BUS:1''
   \<and> analyze_qr_content (lit ''WIFI:S:BUS:1;T:WPA;;'') \<noteq>
     Inr (bullet label_type (lit ''Configuration WiFi'')
        @ bullet label_ssid (spec_ssid (lit ''WIFI:S:BUS:1;T:WPA;;''))
        @ bullet label_longueur (lit ''20'' @ text_caracteres))"
  using qr_wifi_cut [of "lit ''WIFI:''" "lit ''BU''" "lit ''S:1;T:WPA;;''"]
  by (simp add: lit_def str_nat.simps spec_ssid_def sublist_Cons_right bullet_def)

text \<open>
  Claim C10. A payload that starts with \<open>WIFI:\<close> and contains \<open>S:\<close>, with neither a \<open>;\<close> nor
  a second \<open>S:\<close> after the first \<open>S:\<close>, reports as SSID the whole remainder of the payload
  after the first \<open>S:\<close>; a payload that starts with \<open>WIFI:\<close> and contains no \<open>S:\<close> is still
  classified as WiFi configuration, with no SSID line.
\<close>

theorem analyze_qr_content_wifi_remainder:
  "(prefix (lit ''WIFI:'') (pre @ lit ''S:'' @ remainder)
    \<and> \<not> sublist (lit ''S:'') pre
    \<and> \<not> sublist (lit ''S:'') remainder \<and> 59 \<notin> set remainder \<longrightarrow>
    analyze_qr_content (pre @ lit ''S:'' @ remainder) =
      Inr (bullet label_type (lit ''Configuration WiFi'')
         @ bullet label_ssid remainder
         @ bullet label_longueur
             (str_nat (length (pre @ lit ''S:'' @ remainder)) @ text_caracteres)))
   \<and> (prefix (lit ''WIFI:'') data \<and> \<not> sublist (lit ''S:'') data \<longrightarrow>
    analyze_qr_content data =
      Inr (bullet label_type (lit ''Configuration WiFi'')
         @ bullet label_longueur (str_nat (length data) @ text_caracteres)))"
  using qr_wifi_cut [of pre remainder "[]"] qr_wifi_plain [of data]
  by simp

theorem analyze_qr_content_wifi_remainder_witness:
  "analyze_qr_content (lit ''WIFI:T:WPA;S:Maison'') =
      Inr (bullet label_type (lit ''Configuration WiFi'')
         @ bullet label_ssid (lit ''Maison'')
         @ bullet label_longueur (lit ''19'' @ text_caracteres))
   \<and> analyze_qr_content (lit ''WIFI:T:nopass;;'') =
      Inr (bullet label_type (lit ''Configuration WiFi'')
         @ bullet label_longueur (lit ''15'' @ text_caracteres))"
  using analyze_qr_content_wifi_remainder
    [of "lit ''WIFI:T:WPA;''" "lit ''Maison''" "lit ''WIFI:T:nopass;;''"]
  by (simp add: lit_def str_nat.simps sublist_Cons_right)

subsection \<open>Product codes\<close>

text \<open>
  Claim C6. A retail payload of exactly 13 characters is decomposed into country code
  (characters 0-2), manufacturer (3-7), product (8-11) and check digit (12); one of exactly
  8 characters into country code (0-1), product (2-6) and check digit (7); for every other
  length the analysis is the empty text. The payload 4006381333931 gives country 400,
  manufacturer 63813, product 3393 and check digit 1. The analysis never raises.
\<close>

theorem analyze_product_code_fields:
  "analyze_product_code [c0, c1, c2, c3, c4, c5, c6, c7, c8, c9, c10, c11, c12] =
     Inr (bullet label_pays [c0, c1, c2]
        @ bullet label_fabricant [c3, c4, c5, c6, c7]
        @ bullet label_produit [c8, c9, c10, c11]
        @ bullet label_controle [c12])
   \<and> analyze_product_code [d0, d1, d2, d3, d4, d5, d6, d7] =
     Inr (bullet label_pays [d0, d1]
        @ bullet label_produit [d2, d3, d4, d5, d6]
        @ bullet label_controle [d7])
   \<and> (length data \<noteq> 13 \<and> length data \<noteq> 8 \<longrightarrow> analyze_product_code data = Inr [])
   \<and> analyze_product_code (lit ''4006381333931'') =
     Inr (bullet label_pays (lit ''400'')
        @ bullet label_fabricant (lit ''63813'')
        @ bullet label_produit (lit ''3393'')
        @ bullet label_controle (lit ''1''))"
  by (simp add: analyze_product_code_def bind_err_def getitem_def slice_def lit_def)

theorem analyze_product_code_fields_witness:
  "length (lit ''12345'') \<noteq> 13 \<and> length (lit ''12345'') \<noteq> 8
   \<and> analyze_product_code (lit ''12345'') = Inr []"
  using analyze_product_code_fields [where data = "lit ''12345''"] by (simp add: lit_def)

section \<open>Properties of the decoder\<close>

subsection \<open>The lookup of the type name\<close>

lemma type_mapping_missing:
  "(attr, name) \<in> set items \<Longrightarrow> ZBarSymbol zb attr = None \<Longrightarrow>
   type_mapping zb items d = Inl AttributeError"
  by (induction items arbitrary: d) (auto split: option.splits)

lemma type_mapping_error: "type_mapping zb items d = Inl e \<Longrightarrow> e = AttributeError"
  by (induction items arbitrary: d) (auto split: option.splits)

lemma get_barcode_type_name_raises:
  assumes "(attr, name) \<in> set type_mapping_items" and "ZBarSymbol zb attr = None"
  shows "get_barcode_type_name zb t = Inl AttributeError"
  using type_mapping_missing [OF assms, of "[]"]
  by (simp add: get_barcode_type_name_def bind_err_def)

text \<open>The lookup raises for every type or for none.\<close>

lemma get_barcode_type_name_cases:
  obtains (raises) "\<And>t. get_barcode_type_name zb t = Inl AttributeError"
  | (returns) d where "\<And>t. get_barcode_type_name zb t =
        Inr (dict_get d t (lit ''Type inconnu ('' @ symbol_format zb t @ lit '')''))"
proof (cases "type_mapping zb type_mapping_items []")
  case (Inl e)
  then have "e = AttributeError" by (rule type_mapping_error)
  with Inl raises show ?thesis
    by (simp add: get_barcode_type_name_def bind_err_def)
next
  case (Inr d)
  with returns [of d] show ?thesis
    by (simp add: get_barcode_type_name_def bind_err_def)
qed

subsection \<open>The loops when the lookup raises\<close>

lemma add_decoded_nothing:
  assumes "\<And>t. get_barcode_type_name zb t = Inl e"
  shows "snd (add_decoded zb i objs all_decoded) = all_decoded"
proof (induction objs)
  case Nil
  then show ?case by simp
next
  case (Cons obj objs)
  have "new_code zb i obj = Inl e"
    by (simp add: new_code_def assms bind_err_def)
  with Cons show ?case
    by (auto split: sum.splits bool.splits)
qed

lemma scan_variants_nothing:
  assumes "\<And>t. get_barcode_type_name zb t = Inl e"
  shows "scan_variants zb variants all_decoded = all_decoded"
proof (induction variants)
  case Nil
  then show ?case by simp
next
  case (Cons v variants)
  obtain i proc_img where "v = (i, proc_img)" by (cases v)
  with Cons show ?case
    by (simp add: add_decoded_nothing [OF assms] split: sum.splits)
qed

subsection \<open>The loops when the lookup returns\<close>

lemma any_existing_returns:
  assumes "\<And>t. get_barcode_type_name zb t = Inr (f t)"
  shows "any_existing zb obj all_decoded =
    Inr ((decode_utf8 (obj_data obj) Ignore, f (obj_type obj)) \<in> dedup_key ` set all_decoded)"
  by (induction all_decoded) (auto simp: assms bind_err_def dedup_key_def)

lemma new_code_returns:
  assumes "\<And>t. get_barcode_type_name zb t = Inr (f t)"
  shows "\<exists>entry. new_code zb i obj = Inr entry
    \<and> dedup_key entry = (decode_utf8 (obj_data obj) Ignore, f (obj_type obj))"
  by (simp add: new_code_def assms bind_err_def dedup_key_def)

lemma add_decoded_keys:
  assumes "\<And>t. get_barcode_type_name zb t = Inr (f t)"
  shows "dedup_key ` set (snd (add_decoded zb i objs all_decoded)) =
    dedup_key ` set all_decoded
    \<union> (\<lambda>obj. (decode_utf8 (obj_data obj) Ignore, f (obj_type obj))) ` set objs"
proof (induction objs arbitrary: all_decoded)
  case Nil
  then show ?case by simp
next
  case (Cons obj objs)
  obtain entry where entry: "new_code zb i obj = Inr entry"
    "dedup_key entry = (decode_utf8 (obj_data obj) Ignore, f (obj_type obj))"
    using new_code_returns [OF assms] by blast
  show ?case
  proof (cases "(decode_utf8 (obj_data obj) Ignore, f (obj_type obj))
      \<in> dedup_key ` set all_decoded")
    case True
    with Cons [of all_decoded] show ?thesis
      by (auto simp: any_existing_returns [OF assms])
  next
    case False
    with Cons [of "all_decoded @ [entry]"] entry show ?thesis
      by (auto simp: any_existing_returns [OF assms])
  qed
qed

lemma scan_variants_keys:
  assumes "\<And>t. get_barcode_type_name zb t = Inr (f t)"
  shows "dedup_key ` set (scan_variants zb variants all_decoded) =
    dedup_key ` set all_decoded
    \<union> (\<Union>v \<in> snd ` set variants.
         case decode zb v of
           Inl e \<Rightarrow> {}
         | Inr objs \<Rightarrow>
             (\<lambda>obj. (decode_utf8 (obj_data obj) Ignore, f (obj_type obj))) ` set objs)"
proof (induction variants arbitrary: all_decoded)
  case Nil
  then show ?case by simp
next
  case (Cons v variants)
  obtain i proc_img where v: "v = (i, proc_img)" by (cases v)
  show ?case
  proof (cases "decode zb proc_img")
    case (Inl e)
    with Cons [of all_decoded] v show ?thesis by simp
  next
    case (Inr objs)
    with Cons [of "snd (add_decoded zb i objs all_decoded)"] v show ?thesis
      by (simp add: add_decoded_keys [OF assms] Un_assoc)
  qed
qed

lemma snd_enumerate: "snd ` set (enumerate n xs) = set xs"
  by (metis list.set_map map_snd_enumerate)

subsection \<open>The shape of the result\<close>

lemma decode_codes_unreadable:
  "imdecode cv image_data (IMREAD_COLOR cv) = Inr None \<Longrightarrow>
   decode_codes cv zb image_data = Inr [(''error'', Message (lit ''Impossible de lire l'image''))]"
  by (simp add: decode_codes_def bind_err_def)

lemma decode_codes_report:
  assumes "imdecode cv image_data (IMREAD_COLOR cv) = Inr (Some img)"
    and "preprocess_image cv img = Inr variants"
  shows "\<exists>info. decode_codes cv zb image_data =
     Inr [(''codes_found'', Codes (scan_variants zb (enumerate 0 variants) [])),
          (''image_info'', Image_info info),
          (''total_codes'', Total (length (scan_variants zb (enumerate 0 variants) [])))]"
  using assms by (cases "shape img") (simp_all add: decode_codes_def bind_err_def Let_def)

lemma decode_codes_raises:
  "imdecode cv image_data (IMREAD_COLOR cv) = Inl e \<Longrightarrow> decode_codes cv zb image_data = Inl e"
  "imdecode cv image_data (IMREAD_COLOR cv) = Inr (Some img) \<Longrightarrow> preprocess_image cv img = Inl e
   \<Longrightarrow> decode_codes cv zb image_data = Inl e"
  by (cases "shape img"; simp add: decode_codes_def bind_err_def Let_def)+

lemma decode_codes_cases:
  assumes "decode_codes cv zb image_data = Inr results"
  obtains
    (unreadable) "imdecode cv image_data (IMREAD_COLOR cv) = Inr None"
      "results = [(''error'', Message (lit ''Impossible de lire l'image''))]"
  | (report) img variants info where "imdecode cv image_data (IMREAD_COLOR cv) = Inr (Some img)"
      "preprocess_image cv img = Inr variants"
      "results = [(''codes_found'', Codes (scan_variants zb (enumerate 0 variants) [])),
          (''image_info'', Image_info info),
          (''total_codes'', Total (length (scan_variants zb (enumerate 0 variants) [])))]"
proof (cases "imdecode cv image_data (IMREAD_COLOR cv)")
  case (Inl e)
  with assms show ?thesis by (simp add: decode_codes_raises)
next
  case (Inr parsed)
  show ?thesis
  proof (cases parsed)
    case None
    with Inr assms unreadable show ?thesis by (simp add: decode_codes_unreadable)
  next
    case (Some img)
    show ?thesis
    proof (cases "preprocess_image cv img")
      case (Inl e)
      with Inr Some assms show ?thesis by (simp add: decode_codes_raises)
    next
      case r: (Inr variants)
      with Inr Some decode_codes_report [of cv image_data img variants zb] assms report
      show ?thesis by auto
    qed
  qed
qed

subsection \<open>The parts of the OpenCV contract\<close>

lemma contract_imdecode:
  assumes "opencv_contract cv" "imdecode cv buf (IMREAD_COLOR cv) = Inr (Some img)"
  shows "color_image img"
proof -
  from assms(1)
  have "\<forall>buf img. imdecode cv buf (IMREAD_COLOR cv) = Inr (Some img) \<longrightarrow> color_image img"
    unfolding opencv_contract_def by (elim conjE)
  from this [rule_format, OF assms(2)] show ?thesis .
qed

lemma contract_cvtColor:
  assumes "opencv_contract cv" "color_image img"
  shows "\<exists>g. cvtColor cv img (COLOR_BGR2GRAY cv) = Inr g \<and> gray_image g \<and> same_size g img"
proof -
  from assms(1)
  have "\<forall>img. color_image img \<longrightarrow>
        (\<exists>g. cvtColor cv img (COLOR_BGR2GRAY cv) = Inr g \<and> gray_image g \<and> same_size g img)"
    unfolding opencv_contract_def by (elim conjE)
  from this [rule_format, OF assms(2)] show ?thesis .
qed

lemma contract_equalizeHist:
  assumes "opencv_contract cv" "gray_image g"
  shows "\<exists>e. equalizeHist cv g = Inr e \<and> gray_image e \<and> same_size e g"
proof -
  from assms(1)
  have "\<forall>g. gray_image g \<longrightarrow> (\<exists>e. equalizeHist cv g = Inr e \<and> gray_image e \<and> same_size e g)"
    unfolding opencv_contract_def by (elim conjE)
  from this [rule_format, OF assms(2)] show ?thesis .
qed

lemma contract_adaptiveThreshold:
  assumes "opencv_contract cv" "gray_image g"
  shows "\<exists>t. adaptiveThreshold cv g 255 (ADAPTIVE_THRESH_GAUSSIAN_C cv) (THRESH_BINARY cv) 11 2
            = Inr t \<and> gray_image t \<and> same_size t g"
proof -
  from assms(1)
  have "\<forall>g. gray_image g \<longrightarrow>
        (\<exists>t. adaptiveThreshold cv g 255 (ADAPTIVE_THRESH_GAUSSIAN_C cv) (THRESH_BINARY cv) 11 2
               = Inr t \<and> gray_image t \<and> same_size t g)"
    unfolding opencv_contract_def by (elim conjE)
  from this [rule_format, OF assms(2)] show ?thesis .
qed

lemma contract_threshold:
  assumes "opencv_contract cv" "gray_image g"
  shows "\<exists>v t. threshold cv g 0 255 (THRESH_BINARY cv + THRESH_OTSU cv) = Inr (v, t)
              \<and> gray_image t \<and> same_size t g"
proof -
  from assms(1)
  have "\<forall>g. gray_image g \<longrightarrow>
        (\<exists>v t. threshold cv g 0 255 (THRESH_BINARY cv + THRESH_OTSU cv) = Inr (v, t)
               \<and> gray_image t \<and> same_size t g)"
    unfolding opencv_contract_def by (elim conjE)
  from this [rule_format, OF assms(2)] show ?thesis .
qed


subsection \<open>Preprocessing under the contract\<close>

lemma preprocess_image_variants:
  assumes "opencv_contract cv" "pixel_grid img"
  shows "\<exists>gray enhanced thresh v otsu.
      preprocess_image cv img = Inr [img, gray, enhanced, thresh, otsu]
    \<and> (if ndim (shape img) = 3 then cvtColor cv img (COLOR_BGR2GRAY cv) = Inr gray
       else gray = img)
    \<and> equalizeHist cv gray = Inr enhanced
    \<and> adaptiveThreshold cv gray 255 (ADAPTIVE_THRESH_GAUSSIAN_C cv) (THRESH_BINARY cv) 11 2
        = Inr thresh
    \<and> threshold cv gray 0 255 (THRESH_BINARY cv + THRESH_OTSU cv) = Inr (v, otsu)
    \<and> gray_image gray
    \<and> same_size img img \<and> same_size gray img \<and> same_size enhanced img
    \<and> same_size thresh img \<and> same_size otsu img"
proof -
  obtain gray where gray: "if ndim (shape img) = 3
      then cvtColor cv img (COLOR_BGR2GRAY cv) = Inr gray else gray = img"
    "gray_image gray" "same_size gray img"
  proof (cases "color_image img")
    case True
    with assms(1) obtain g where "cvtColor cv img (COLOR_BGR2GRAY cv) = Inr g"
      "gray_image g" "same_size g img"
      using contract_cvtColor by blast
    moreover from True have "ndim (shape img) = 3"
      by (auto simp: color_image_def split: array_shape.splits)
    ultimately show ?thesis using that by simp
  next
    case False
    with assms(2) have g: "gray_image img" by (simp add: pixel_grid_def)
    then have "ndim (shape img) \<noteq> 3"
      by (auto simp: gray_image_def split: array_shape.splits)
    with g show ?thesis using that [of img] by (simp add: same_size_def)
  qed
  from assms(1) gray(2) obtain enhanced where e: "equalizeHist cv gray = Inr enhanced"
    "same_size enhanced gray"
    using contract_equalizeHist by blast
  from assms(1) gray(2) obtain thresh where t: "adaptiveThreshold cv gray 255
      (ADAPTIVE_THRESH_GAUSSIAN_C cv) (THRESH_BINARY cv) 11 2 = Inr thresh"
    "same_size thresh gray"
    using contract_adaptiveThreshold by blast
  from assms(1) gray(2) obtain v otsu where
    o: "threshold cv gray 0 255 (THRESH_BINARY cv + THRESH_OTSU cv) = Inr (v, otsu)"
    "same_size otsu gray"
    using contract_threshold by blast
  have "preprocess_image cv img = Inr [img, gray, enhanced, thresh, otsu]"
    using gray(1) e(1) t(1) o(1)
    by (simp add: preprocess_image_def bind_err_def split: if_splits)
  moreover have "same_size img img" "same_size enhanced img" "same_size thresh img"
    "same_size otsu img"
    using gray(3) e(2) t(2) o(2) by (simp_all add: same_size_def)
  ultimately show ?thesis
    using gray e(1) t(1) o(1) by blast
qed

subsection \<open>The instance\<close>

lemmas sample_defs = sample_cv2_def sample_pyzbar_def sample_imdecode_def sample_cvtColor_def
  sample_equalizeHist_def sample_adaptiveThreshold_def sample_threshold_def sample_decode_def
  sample_image_data_def sample_image_def sample_gray_def sample_white_def
  color_image_def gray_image_def

lemma sample_contract: "opencv_contract sample_cv2"
  unfolding opencv_contract_def
  by (auto simp: sample_defs same_size_def split: list.splits array_shape.splits if_splits)

lemma sample_parsed:
  "imdecode sample_cv2 sample_image_data (IMREAD_COLOR sample_cv2) = Inr (Some sample_image)"
  by (simp add: sample_defs)

lemma sample_unparsed:
  "imdecode sample_cv2 [0, 1] (IMREAD_COLOR sample_cv2) = Inr None"
  by (simp add: sample_defs)

lemma sample_empty:
  "imdecode sample_cv2 [] (IMREAD_COLOR sample_cv2) = Inl LibraryError"
  by (simp add: sample_defs)

lemma sample_variants:
  "preprocess_image sample_cv2 sample_image =
     Inr [sample_image, sample_gray, sample_gray, sample_white, sample_white]"
  by (simp add: preprocess_image_def sample_defs bind_err_def)

lemma sample_scans:
  "decode sample_pyzbar sample_image = Inr [sample_qr 0 1]"
  "decode sample_pyzbar sample_gray = Inr [sample_qr 5 9, sample_ean, sample_broken]"
  "decode sample_pyzbar sample_white = Inl LibraryError"
  by (simp_all add: sample_defs)

lemma sample_missing:
  "(''DATAMATRIX'', lit ''Data Matrix'') \<in> set type_mapping_items"
  "ZBarSymbol sample_pyzbar ''DATAMATRIX'' = None"
  by (simp_all add: type_mapping_items_def sample_pyzbar_def pyzbar_members_def)

lemma sample_lookup: "get_barcode_type_name sample_pyzbar t = Inl AttributeError"
  using sample_missing by (rule get_barcode_type_name_raises)

lemma sample_report:
  "decode_codes sample_cv2 sample_pyzbar sample_image_data = Inr sample_results"
  by (simp only: decode_codes_def sample_parsed sample_variants
        scan_variants_nothing [of sample_pyzbar, OF sample_lookup]
        bind_err_def Let_def sum.case option.case)
     (simp add: sample_image_def sample_results_def str_nat.simps lit_def)

subsection \<open>The claims about the decoder\<close>

text \<open>
  Claim C1 says that the first detection met with each key is the one in the report. The
  source looks the type name up in a table whose keys read \<open>ZBarSymbol.DATAMATRIX\<close> and
  \<open>ZBarSymbol.AZTEC\<close>. Where the enumeration lacks a name of the table, as pyzbar's lacks
  these two, the lookup raises on every call, inside the \<open>try\<close> of the loop, before any
  entry is appended: every report is empty, whatever the scans find.
\<close>

theorem decode_codes_reports_nothing:
  assumes "(attr, name) \<in> set type_mapping_items" and "ZBarSymbol zb attr = None"
    and "imdecode cv image_data (IMREAD_COLOR cv) = Inr (Some img)"
    and "preprocess_image cv img = Inr variants"
  shows "\<exists>info. decode_codes cv zb image_data =
     Inr [(''codes_found'', Codes []), (''image_info'', Image_info info),
          (''total_codes'', Total 0)]"
proof -
  have "scan_variants zb (enumerate 0 variants) [] = []"
    by (rule scan_variants_nothing) (rule get_barcode_type_name_raises [OF assms(1,2)])
  with decode_codes_report [OF assms(3,4), of zb] show ?thesis
    by simp
qed

theorem decode_codes_reports_nothing_witness:
  "(''DATAMATRIX'', lit ''Data Matrix'') \<in> set type_mapping_items
   \<and> ZBarSymbol sample_pyzbar ''DATAMATRIX'' = None
   \<and> imdecode sample_cv2 sample_image_data (IMREAD_COLOR sample_cv2) = Inr (Some sample_image)
   \<and> preprocess_image sample_cv2 sample_image =
       Inr [sample_image, sample_gray, sample_gray, sample_white, sample_white]
   \<and> decode sample_pyzbar sample_image = Inr [sample_qr 0 1]
   \<and> (\<exists>info. decode_codes sample_cv2 sample_pyzbar sample_image_data =
       Inr [(''codes_found'', Codes []), (''image_info'', Image_info info),
            (''total_codes'', Total 0)])
   \<and> decode_codes sample_cv2 sample_pyzbar sample_image_data =
       Inr [(''codes_found'', Codes []),
            (''image_info'', Image_info \<lparr>dimensions = lit ''1x1'', channels = 3\<rparr>),
            (''total_codes'', Total 0)]"
  using decode_codes_reports_nothing [OF sample_missing sample_parsed sample_variants]
    sample_missing sample_parsed sample_variants sample_scans(1)
    sample_report [unfolded sample_results_def]
  by (intro conjI) assumption+

text \<open>
  Claim C2 says that a buffer that is no image gives the error result and never a crash.
  The source calls \<open>imdecode\<close> outside any \<open>try\<close>: where \<open>imdecode\<close> raises, as OpenCV does on
  the empty buffer, \<open>decode_codes\<close> raises the same exception and returns no result.
\<close>

theorem decode_codes_raises_with_imdecode:
  assumes "imdecode cv image_data (IMREAD_COLOR cv) = Inl e"
  shows "decode_codes cv zb image_data = Inl e"
  using assms by (simp add: decode_codes_def bind_err_def)

theorem decode_codes_raises_with_imdecode_witness:
  "imdecode sample_cv2 [] (IMREAD_COLOR sample_cv2) = Inl LibraryError
   \<and> decode_codes sample_cv2 sample_pyzbar [] = Inl LibraryError"
  using decode_codes_raises_with_imdecode [OF sample_empty, of sample_pyzbar] sample_empty
  by simp

text \<open>
  Claim C3. On every pixel grid, with OpenCV behaving as documented, \<open>preprocess_image\<close>
  returns exactly five variants in this order: the image itself, its grey conversion (the
  image itself when it has a single channel), the equalised grey image, the adaptive
  threshold of the grey image with block size 11 and constant 2, and the Otsu threshold of
  the grey image; each has the rows and columns of the image.
\<close>

theorem preprocess_image_five_variants:
  assumes "opencv_contract cv" and "pixel_grid img"
  shows "\<exists>gray enhanced thresh v otsu.
      preprocess_image cv img = Inr [img, gray, enhanced, thresh, otsu]
    \<and> (if ndim (shape img) = 3 then cvtColor cv img (COLOR_BGR2GRAY cv) = Inr gray
       else gray = img)
    \<and> equalizeHist cv gray = Inr enhanced
    \<and> adaptiveThreshold cv gray 255 (ADAPTIVE_THRESH_GAUSSIAN_C cv) (THRESH_BINARY cv) 11 2
        = Inr thresh
    \<and> threshold cv gray 0 255 (THRESH_BINARY cv + THRESH_OTSU cv) = Inr (v, otsu)
    \<and> same_size img img \<and> same_size gray img \<and> same_size enhanced img
    \<and> same_size thresh img \<and> same_size otsu img"
  using preprocess_image_variants [OF assms] by blast

theorem preprocess_image_five_variants_witness:
  "opencv_contract sample_cv2 \<and> pixel_grid sample_image
   \<and> preprocess_image sample_cv2 sample_image =
       Inr [sample_image, sample_gray, sample_gray, sample_white, sample_white]
   \<and> (\<exists>gray enhanced thresh v otsu.
      preprocess_image sample_cv2 sample_image = Inr [sample_image, gray, enhanced, thresh, otsu]
    \<and> (if ndim (shape sample_image) = 3
       then cvtColor sample_cv2 sample_image (COLOR_BGR2GRAY sample_cv2) = Inr gray
       else gray = sample_image)
    \<and> equalizeHist sample_cv2 gray = Inr enhanced
    \<and> adaptiveThreshold sample_cv2 gray 255 (ADAPTIVE_THRESH_GAUSSIAN_C sample_cv2)
         (THRESH_BINARY sample_cv2) 11 2 = Inr thresh
    \<and> threshold sample_cv2 gray 0 255 (THRESH_BINARY sample_cv2 + THRESH_OTSU sample_cv2)
         = Inr (v, otsu)
    \<and> same_size sample_image sample_image \<and> same_size gray sample_image
    \<and> same_size enhanced sample_image
    \<and> same_size thresh sample_image \<and> same_size otsu sample_image)"
proof -
  have grid: "pixel_grid sample_image"
    by (simp add: pixel_grid_def color_image_def sample_image_def)
  show ?thesis
    using preprocess_image_five_variants [OF sample_contract grid] sample_contract grid
      sample_variants
    by (intro conjI) assumption+
qed

text \<open>
  Claim C7. In every report \<open>decode_codes\<close> returns without the key \<open>error\<close>, \<open>total_codes\<close>
  is the length of \<open>codes_found\<close>.
\<close>

theorem decode_codes_total_codes:
  assumes "decode_codes cv zb image_data = Inr results" and "''error'' \<notin> fst ` set results"
  shows "\<exists>cs. map_of results ''codes_found'' = Some (Codes cs)
    \<and> map_of results ''total_codes'' = Some (Total (length cs))"
  using assms(1)
proof (cases rule: decode_codes_cases)
  case unreadable
  with assms(2) show ?thesis by simp
next
  case (report img variants info)
  then show ?thesis by simp
qed

theorem decode_codes_total_codes_witness:
  "decode_codes sample_cv2 sample_pyzbar sample_image_data = Inr sample_results
   \<and> ''error'' \<notin> fst ` set sample_results
   \<and> (\<exists>cs. map_of sample_results ''codes_found'' = Some (Codes cs)
         \<and> map_of sample_results ''total_codes'' = Some (Total (length cs)))
   \<and> map_of sample_results ''total_codes'' = Some (Total 0)"
proof -
  have no_error: "''error'' \<notin> fst ` set sample_results"
    by (simp add: sample_results_def)
  show ?thesis
    using decode_codes_total_codes [OF sample_report no_error] sample_report no_error
    by (simp add: sample_results_def)
qed

text \<open>
  Claim C8. The loop over the variants is monotone in the list of variants: run on a prefix
  or on any subsequence of a list, it reports no deduplication key that the run on the
  whole list does not report. This holds for every instance of pyzbar: where the lookup of
  the type name raises both reports are empty, and where it returns the keys of a report
  are those of the detections of its variants.
\<close>

theorem scan_variants_monotone:
  assumes "prefix vs ws \<or> subseq vs ws"
  shows "dedup_key ` set (scan_variants zb (enumerate 0 vs) [])
       \<subseteq> dedup_key ` set (scan_variants zb (enumerate 0 ws) [])"
proof (cases zb rule: get_barcode_type_name_cases)
  case raises
  then show ?thesis
    by (simp add: scan_variants_nothing [of zb AttributeError])
next
  case (returns d)
  from assms have "subseq vs ws" by (auto dest: prefix_imp_subseq)
  then have "set vs \<subseteq> set ws" by (auto dest: list_emb_set)
  then show ?thesis
    unfolding scan_variants_keys [of zb, OF returns] snd_enumerate by auto
qed

theorem scan_variants_monotone_witness:
  "prefix [sample_image] [sample_image, sample_gray, sample_gray, sample_white, sample_white]
   \<and> dedup_key ` set (scan_variants sample_pyzbar (enumerate 0 [sample_image]) [])
       \<subseteq> dedup_key ` set (scan_variants sample_pyzbar
            (enumerate 0 [sample_image, sample_gray, sample_gray, sample_white, sample_white]) [])
   \<and> scan_variants sample_pyzbar (enumerate 0 [sample_image]) [] = []"
proof -
  have p: "prefix [sample_image]
      [sample_image, sample_gray, sample_gray, sample_white, sample_white]"
    by simp
  have "scan_variants sample_pyzbar (enumerate 0 [sample_image]) [] = []"
    by (rule scan_variants_nothing) (rule sample_lookup)
  with p scan_variants_monotone [of "[sample_image]"
      "[sample_image, sample_gray, sample_gray, sample_white, sample_white]" sample_pyzbar]
  show ?thesis by blast
qed

text \<open>
  Claim C9. When \<open>imdecode\<close> returns \<open>None\<close> the dictionary \<open>decode_codes\<close> returns has the
  single key \<open>error\<close>: no codes, no count, no image information.
\<close>

theorem decode_codes_error_bare:
  assumes "imdecode cv image_data (IMREAD_COLOR cv) = Inr None"
  shows "\<exists>results msg. decode_codes cv zb image_data = Inr results
    \<and> results = [(''error'', Message msg)]
    \<and> map_of results ''codes_found'' = None
    \<and> map_of results ''total_codes'' = None
    \<and> map_of results ''image_info'' = None"
  using decode_codes_unreadable [OF assms, of zb] by simp

theorem decode_codes_error_bare_witness:
  "imdecode sample_cv2 [0, 1] (IMREAD_COLOR sample_cv2) = Inr None
   \<and> (\<exists>results msg. decode_codes sample_cv2 sample_pyzbar [0, 1] = Inr results
        \<and> results = [(''error'', Message msg)]
        \<and> map_of results ''codes_found'' = None
        \<and> map_of results ''total_codes'' = None
        \<and> map_of results ''image_info'' = None)"
  using decode_codes_error_bare [OF sample_unparsed, of sample_pyzbar] sample_unparsed
  by simp

section \<open>Properties of the payload text\<close>

subsection \<open>Decoded sequences and their encoding\<close>

lemma enc2:
  assumes "194 \<le> b0" "b0 < 224" "continuation b1"
  shows "utf8_encode ((b0 - 192) * 64 + (b1 - 128)) = [b0, b1]"
proof -
  define x y where "x = b0 - 192" and "y = b1 - 128"
  have x: "b0 = 192 + x" "2 \<le> x" "x < 32" and y: "b1 = 128 + y" "y < 64"
    using assms by (auto simp: x_def y_def continuation_def)
  have "128 \<le> x * 64 + y" "x * 64 + y < 2048"
    using x y by simp_all
  moreover have "(x * 64 + y) div 64 = x" "(x * 64 + y) mod 64 = y"
    using y by simp_all
  ultimately show ?thesis
    unfolding x_def [symmetric] y_def [symmetric] using x(1) y(1)
    by (simp add: utf8_encode_def)
qed

lemma enc3:
  assumes "224 \<le> b0" "b0 < 240" "second_of_3 b0 b1" "continuation b2"
  shows "utf8_encode ((b0 - 224) * 4096 + (b1 - 128) * 64 + (b2 - 128)) = [b0, b1, b2]"
proof -
  define x y z where "x = b0 - 224" and "y = b1 - 128" and "z = b2 - 128"
  have x: "b0 = 224 + x" "x < 16" and z: "b2 = 128 + z" "z < 64"
    using assms by (auto simp: x_def z_def continuation_def)
  have y: "b1 = 128 + y" "y < 64" "x = 0 \<longrightarrow> 32 \<le> y"
    using assms(3) x(1) by (auto simp: y_def second_of_3_def continuation_def split: if_splits)
  have "2048 \<le> x * 4096 + y * 64 + z"
    using y(3) by (cases "x = 0") simp_all
  moreover have "x * 4096 + y * 64 + z < 65536"
    using x y z by simp
  moreover have "(x * 4096 + y * 64 + z) div 4096 = x"
  proof -
    have "y * 64 + z < 4096" using y z by simp
    then have "(x * 4096 + (y * 64 + z)) div 4096 = x" by simp
    then show ?thesis by (simp add: add.assoc)
  qed
  moreover have "(x * 4096 + y * 64 + z) div 64 mod 64 = y"
    "(x * 4096 + y * 64 + z) mod 64 = z"
  proof -
    have e: "x * 4096 + y * 64 + z = (x * 64 + y) * 64 + z" by simp
    have "((x * 64 + y) * 64 + z) div 64 = (x * 64 + y) + z div 64"
      by (rule div_mult_self3) simp
    with z have "(x * 4096 + y * 64 + z) div 64 = x * 64 + y"
      unfolding e by simp
    moreover have "(x * 64 + y) mod 64 = y mod 64"
      by (rule mod_mult_self3)
    ultimately show "(x * 4096 + y * 64 + z) div 64 mod 64 = y"
      using y by simp
    have "((x * 64 + y) * 64 + z) mod 64 = z mod 64"
      by (rule mod_mult_self3)
    then show "(x * 4096 + y * 64 + z) mod 64 = z"
      unfolding e using z by simp
  qed
  ultimately show ?thesis
    unfolding x_def [symmetric] y_def [symmetric] z_def [symmetric] using x(1) y(1) z(1)
    by (simp add: utf8_encode_def)
qed


lemma enc4:
  assumes "240 \<le> b0" "b0 < 245" "second_of_4 b0 b1" "continuation b2" "continuation b3"
  shows "utf8_encode ((b0 - 240) * 262144 + (b1 - 128) * 4096 + (b2 - 128) * 64 + (b3 - 128))
    = [b0, b1, b2, b3]"
proof -
  define x y z w where "x = b0 - 240" and "y = b1 - 128" and "z = b2 - 128" and "w = b3 - 128"
  have x: "b0 = 240 + x" "x < 5" and z: "b2 = 128 + z" "z < 64" and w: "b3 = 128 + w" "w < 64"
    using assms by (auto simp: x_def z_def w_def continuation_def)
  have y: "b1 = 128 + y" "y < 64" "x = 0 \<longrightarrow> 16 \<le> y"
    using assms(3) x(1) by (auto simp: y_def second_of_4_def continuation_def split: if_splits)
  define c where "c = x * 262144 + y * 4096 + z * 64 + w"
  have e: "c = ((x * 64 + y) * 64 + z) * 64 + w" by (simp add: c_def)
  have "65536 \<le> c"
    unfolding c_def using y(3) by (cases "x = 0") simp_all
  then have big: "\<not> c < 128" "\<not> c < 2048" "\<not> c < 65536" by simp_all
  have d1: "c div 64 = (x * 64 + y) * 64 + z"
  proof -
    have "c div 64 = ((x * 64 + y) * 64 + z) + w div 64"
      unfolding e by (rule div_mult_self3) simp
    with w show ?thesis by simp
  qed
  have m1: "c mod 64 = w"
  proof -
    have "c mod 64 = w mod 64" unfolding e by (rule mod_mult_self3)
    with w show ?thesis by simp
  qed
  have "c div 4096 = c div (64 * 64)" by simp
  also have "\<dots> = c div 64 div 64" by (rule div_mult2_eq)
  also have "\<dots> = (x * 64 + y) + z div 64"
    unfolding d1 by (rule div_mult_self3) simp
  finally have d2: "c div 4096 = x * 64 + y" using z by simp
  have m2: "c div 64 mod 64 = z"
  proof -
    have "c div 64 mod 64 = z mod 64" unfolding d1 by (rule mod_mult_self3)
    with z show ?thesis by simp
  qed
  have "c div 262144 = c div (4096 * 64)" by simp
  also have "\<dots> = c div 4096 div 64" by (rule div_mult2_eq)
  also have "\<dots> = x + y div 64"
    unfolding d2 by (rule div_mult_self3) simp
  finally have d3: "c div 262144 = x" using y by simp
  have m3: "c div 4096 mod 64 = y"
  proof -
    have "c div 4096 mod 64 = y mod 64" unfolding d2 by (rule mod_mult_self3)
    with y show ?thesis by simp
  qed
  have "utf8_encode c = [b0, b1, b2, b3]"
    unfolding utf8_encode_def using big by (simp add: d3 m3 m2 m1 x(1) y(1) z(1) w(1))
  then show ?thesis
    by (simp add: c_def x_def y_def z_def w_def)
qed

lemma utf8_step_sound:
  assumes "utf8_step bs = Some (c, n)"
  shows "0 < n \<and> n = length (utf8_encode c) \<and> take n bs = utf8_encode c"
proof (cases bs)
  case Nil
  with assms show ?thesis by (simp add: utf8_step_def)
next
  case (Cons b0 r0)
  consider (one) "b0 < 128" | (two) "194 \<le> b0" "b0 < 224" | (three) "224 \<le> b0" "b0 < 240"
    | (four) "240 \<le> b0" "b0 < 245" | (none) "128 \<le> b0" "b0 < 194" | (high) "245 \<le> b0"
    by linarith
  then show ?thesis
  proof cases
    case one
    with assms Cons show ?thesis by (auto simp: utf8_step_def utf8_encode_def)
  next
    case two
    with assms Cons obtain b1 r1 where "r0 = b1 # r1" "continuation b1"
      "c = (b0 - 192) * 64 + (b1 - 128)" "n = 2"
      by (auto simp: utf8_step_def split: list.splits if_splits)
    with two Cons enc2 [of b0 b1] show ?thesis by simp
  next
    case three
    with assms Cons obtain b1 b2 r2 where "r0 = b1 # b2 # r2" "second_of_3 b0 b1"
      "continuation b2" "c = (b0 - 224) * 4096 + (b1 - 128) * 64 + (b2 - 128)" "n = 3"
      by (auto simp: utf8_step_def split: list.splits if_splits)
    with three Cons enc3 [of b0 b1 b2] show ?thesis by simp
  next
    case four
    with assms Cons obtain b1 b2 b3 r3 where "r0 = b1 # b2 # b3 # r3" "second_of_4 b0 b1"
      "continuation b2" "continuation b3"
      "c = (b0 - 240) * 262144 + (b1 - 128) * 4096 + (b2 - 128) * 64 + (b3 - 128)" "n = 4"
      by (auto simp: utf8_step_def split: list.splits if_splits)
    with four Cons enc4 [of b0 b1 b2 b3] show ?thesis by simp
  next
    case none
    with assms Cons show ?thesis by (simp add: utf8_step_def)
  next
    case high
    with assms Cons show ?thesis by (simp add: utf8_step_def)
  qed
qed

lemma utf8_decode_subseq:
  "subseq (concat (map utf8_encode (utf8_decode Ignore bs))) bs"
proof (induction bs rule: length_induct)
  case (1 bs)
  show ?case
  proof (cases bs)
    case Nil
    then show ?thesis by simp
  next
    case (Cons b r)
    show ?thesis
    proof (cases "utf8_step (b # r)")
      case None
      have "subseq (concat (map utf8_encode (utf8_decode Ignore r))) r"
        using 1 Cons by simp
      then have "subseq (concat (map utf8_encode (utf8_decode Ignore r))) (b # r)"
        by (rule list_emb_Cons)
      with None Cons show ?thesis by simp
    next
      case (Some cn)
      obtain c n where cn: "cn = (c, n)" by (cases cn)
      from Some cn have "utf8_step (b # r) = Some (c, n)" by simp
      from utf8_step_sound [OF this]
      have n: "0 < n" "take n (b # r) = utf8_encode c" by blast+
      have "b # r = take n (b # r) @ drop n (b # r)"
        by simp
      with n have split: "b # r = utf8_encode c @ drop (n - 1) r"
        by (simp add: drop_Cons')
      have "subseq (concat (map utf8_encode (utf8_decode Ignore (drop (n - 1) r)))) (drop (n - 1) r)"
        using 1 Cons by simp
      moreover have dec: "utf8_decode Ignore (b # r) = c # utf8_decode Ignore (drop (n - 1) r)"
        using Some cn by simp
      ultimately have "subseq (concat (map utf8_encode (utf8_decode Ignore (b # r))))
          (utf8_encode c @ drop (n - 1) r)"
        by (simp add: subseq_append')
      then have "subseq (concat (map utf8_encode (utf8_decode Ignore (b # r)))) (b # r)"
        by (simp only: split [symmetric])
      then show ?thesis by (simp only: Cons)
    qed
  qed
qed

subsection \<open>Encoded text is decoded unchanged\<close>

lemma step1: "c < 128 \<Longrightarrow> utf8_step (utf8_encode c @ rest) = Some (c, 1)"
  by (simp add: utf8_step_def utf8_encode_def)

lemma step2:
  assumes "128 \<le> c" "c < 2048"
  shows "utf8_step (utf8_encode c @ rest) = Some (c, 2)"
proof -
  define x y where "x = c div 64" and "y = c mod 64"
  have c: "c = x * 64 + y" and y: "y < 64"
    by (simp_all add: x_def y_def)
  have x: "2 \<le> x" "x < 32"
    using assms unfolding x_def by simp_all
  have "utf8_encode c = [192 + x, 128 + y]"
    using assms by (simp add: utf8_encode_def x_def y_def)
  then show ?thesis
    using x y by (simp add: utf8_step_def continuation_def c)
qed

lemma step3:
  assumes "2048 \<le> c" "c < 65536" "\<not> (55296 \<le> c \<and> c < 57344)"
  shows "utf8_step (utf8_encode c @ rest) = Some (c, 3)"
proof -
  define x y z where "x = c div 4096" and "y = c div 64 mod 64" and "z = c mod 64"
  have "c div 4096 = c div (64 * 64)" by simp
  also have "\<dots> = c div 64 div 64" by (rule div_mult2_eq)
  finally have x': "x = c div 64 div 64" by (simp add: x_def)
  have "c div 64 = x * 64 + y"
    unfolding x' y_def by simp
  then have c: "c = (x * 64 + y) * 64 + z"
    unfolding z_def by (metis div_mult_mod_eq)
  have y: "y < 64" and z: "z < 64"
    by (simp_all add: y_def z_def)
  have x: "x < 16"
    using assms(2) unfolding x_def by simp
  have lo: "x = 0 \<Longrightarrow> 32 \<le> y"
    using assms(1) y z unfolding c by simp
  have sur: "x = 13 \<Longrightarrow> y < 32"
    using assms(2,3) y z unfolding c by simp
  have "utf8_encode c = [224 + x, 128 + y, 128 + z]"
    using assms by (simp add: utf8_encode_def x_def y_def z_def)
  moreover have "second_of_3 (224 + x) (128 + y)"
    using lo sur y by (simp add: second_of_3_def continuation_def)
  moreover have "x * 4096 + y * 64 + z = c"
    unfolding c by simp
  ultimately show ?thesis
    using x z by (simp add: utf8_step_def continuation_def)
qed


lemma step4:
  assumes "65536 \<le> c" "c < 1114112"
  shows "utf8_step (utf8_encode c @ rest) = Some (c, 4)"
proof -
  define x y z w where "x = c div 262144" and "y = c div 4096 mod 64"
    and "z = c div 64 mod 64" and "w = c mod 64"
  have "c div 4096 = c div (64 * 64)" by simp
  also have "\<dots> = c div 64 div 64" by (rule div_mult2_eq)
  finally have d2: "c div 4096 = c div 64 div 64" .
  have "c div 262144 = c div (4096 * 64)" by simp
  also have "\<dots> = c div 4096 div 64" by (rule div_mult2_eq)
  finally have d3: "x = c div 4096 div 64" by (simp add: x_def)
  have "c div 4096 = x * 64 + y"
    unfolding d3 y_def by simp
  then have "c div 64 = (x * 64 + y) * 64 + z"
    unfolding z_def d2 by (metis div_mult_mod_eq)
  then have c: "c = ((x * 64 + y) * 64 + z) * 64 + w"
    unfolding w_def by (metis div_mult_mod_eq)
  have y: "y < 64" and z: "z < 64" and w: "w < 64"
    by (simp_all add: y_def z_def w_def)
  have x: "x < 5"
    using assms(2) unfolding x_def by simp
  have lo: "x = 0 \<Longrightarrow> 16 \<le> y"
    using assms(1) y z w unfolding c by simp
  have hi: "x = 4 \<Longrightarrow> y < 16"
    using assms(2) y z w unfolding c by simp
  have "utf8_encode c = [240 + x, 128 + y, 128 + z, 128 + w]"
    using assms by (simp add: utf8_encode_def x_def y_def z_def w_def)
  moreover have "second_of_4 (240 + x) (128 + y)"
    using lo hi y by (simp add: second_of_4_def continuation_def)
  moreover have "x * 262144 + y * 4096 + z * 64 + w = c"
    unfolding c by simp
  ultimately show ?thesis
    using x z w by (simp add: utf8_step_def continuation_def)
qed

lemma utf8_step_encode:
  assumes "scalar_value c"
  shows "utf8_step (utf8_encode c @ rest) = Some (c, length (utf8_encode c))"
proof -
  consider "c < 128" | "128 \<le> c" "c < 2048" | "2048 \<le> c" "c < 65536" | "65536 \<le> c"
    by linarith
  then show ?thesis
  proof cases
    case 1
    then show ?thesis using step1 [of c rest] by (simp add: utf8_encode_def)
  next
    case 2
    then show ?thesis using step2 [of c rest] by (simp add: utf8_encode_def)
  next
    case 3
    with assms show ?thesis using step3 [of c rest]
      by (simp add: utf8_encode_def scalar_value_def)
  next
    case 4
    with assms show ?thesis using step4 [of c rest]
      by (simp add: utf8_encode_def scalar_value_def)
  qed
qed

lemma utf8_encode_nonempty: "utf8_encode c \<noteq> []"
  by (simp add: utf8_encode_def)

lemma utf8_decode_encode:
  assumes "\<forall>c \<in> set cs. scalar_value c"
  shows "utf8_decode h (concat (map utf8_encode cs) @ rest) = cs @ utf8_decode h rest"
  using assms
proof (induction cs)
  case Nil
  then show ?case by simp
next
  case (Cons c cs)
  obtain b r where br: "utf8_encode c = b # r"
    using utf8_encode_nonempty [of c] by (cases "utf8_encode c") auto
  define tail where "tail = concat (map utf8_encode cs) @ rest"
  from Cons.prems have "utf8_step (utf8_encode c @ tail) = Some (c, length (utf8_encode c))"
    by (simp add: utf8_step_encode)
  then have "utf8_step (b # r @ tail) = Some (c, Suc (length r))"
    by (simp add: br)
  then have "utf8_decode h (b # r @ tail) = c # utf8_decode h tail"
    by simp
  with Cons show ?case
    by (simp add: br tail_def)
qed

subsection \<open>What is kept and what is dropped\<close>

lemma utf8_step_scalar:
  assumes "utf8_step bs = Some (c, n)"
  shows "scalar_value c"
proof (cases bs)
  case Nil
  with assms show ?thesis by (simp add: utf8_step_def)
next
  case (Cons b0 r0)
  consider (one) "b0 < 128" | (two) "194 \<le> b0" "b0 < 224" | (three) "224 \<le> b0" "b0 < 240"
    | (four) "240 \<le> b0" "b0 < 245" | (none) "128 \<le> b0" "b0 < 194" | (high) "245 \<le> b0"
    by linarith
  then show ?thesis
  proof cases
    case one
    with assms Cons show ?thesis by (auto simp: utf8_step_def scalar_value_def)
  next
    case two
    with assms Cons obtain b1 where b: "continuation b1"
      and c: "c = (b0 - 192) * 64 + (b1 - 128)"
      by (auto simp: utf8_step_def split: list.splits if_splits)
    define x y where "x = b0 - 192" and "y = b1 - 128"
    have "x < 32" "y < 64"
      using two b by (auto simp: x_def y_def continuation_def)
    moreover have "c = x * 64 + y"
      by (simp add: c x_def y_def)
    ultimately show ?thesis
      by (simp add: scalar_value_def)
  next
    case three
    with assms Cons obtain b1 b2 where b: "second_of_3 b0 b1" "continuation b2"
      and c: "c = (b0 - 224) * 4096 + (b1 - 128) * 64 + (b2 - 128)"
      by (auto simp: utf8_step_def split: list.splits if_splits)
    define x y z where "x = b0 - 224" and "y = b1 - 128" and "z = b2 - 128"
    have x: "b0 = 224 + x" "x < 16" and z: "z < 64"
      using three b(2) by (auto simp: x_def z_def continuation_def)
    have y: "y < 64" "x = 13 \<longrightarrow> y < 32"
      using b(1) x(1) by (auto simp: y_def second_of_3_def continuation_def split: if_splits)
    have cx: "c = x * 4096 + y * 64 + z"
      by (simp add: c x_def y_def z_def)
    consider "x \<le> 12" | "x = 13" | "14 \<le> x"
      by linarith
    then show ?thesis
    proof cases
      case 1
      with cx x(2) y z show ?thesis by (simp add: scalar_value_def)
    next
      case 2
      with cx x(2) y z show ?thesis by (simp add: scalar_value_def)
    next
      case 3
      with cx x(2) y z show ?thesis by (simp add: scalar_value_def)
    qed
  next
    case four
    with assms Cons obtain b1 b2 b3 where b: "second_of_4 b0 b1" "continuation b2"
      "continuation b3"
      and c: "c = (b0 - 240) * 262144 + (b1 - 128) * 4096 + (b2 - 128) * 64 + (b3 - 128)"
      by (auto simp: utf8_step_def split: list.splits if_splits)
    define x y z w where "x = b0 - 240" and "y = b1 - 128" and "z = b2 - 128" and "w = b3 - 128"
    have x: "b0 = 240 + x" "x < 5" and z: "z < 64" and w: "w < 64"
      using four b(2,3) by (auto simp: x_def z_def w_def continuation_def)
    have y: "y < 64" "x = 0 \<longrightarrow> 16 \<le> y" "x = 4 \<longrightarrow> y < 16"
      using b(1) x(1) by (auto simp: y_def second_of_4_def continuation_def split: if_splits)
    have cx: "c = x * 262144 + y * 4096 + z * 64 + w"
      by (simp add: c x_def y_def z_def w_def)
    consider "x = 0" | "1 \<le> x" "x \<le> 3" | "x = 4"
      using x(2) by linarith
    then show ?thesis
    proof cases
      case 1
      with cx y z w show ?thesis by (simp add: scalar_value_def)
    next
      case 2
      with cx y z w show ?thesis by (simp add: scalar_value_def)
    next
      case 3
      with cx y z w show ?thesis by (simp add: scalar_value_def)
    qed
  next
    case none
    with assms Cons show ?thesis by (simp add: utf8_step_def)
  next
    case high
    with assms Cons show ?thesis by (simp add: utf8_step_def)
  qed
qed

lemma utf8_step_None:
  assumes "\<forall>c. scalar_value c \<longrightarrow> \<not> prefix (utf8_encode c) bs"
  shows "utf8_step bs = None"
proof (cases "utf8_step bs")
  case None
  then show ?thesis .
next
  case (Some cn)
  obtain c n where cn: "cn = (c, n)" by (cases cn)
  with Some have s: "utf8_step bs = Some (c, n)" by simp
  from utf8_step_sound [OF s] have "take n bs = utf8_encode c" by blast
  then have "prefix (utf8_encode c) bs"
    by (metis take_is_prefix)
  with assms utf8_step_scalar [OF s] show ?thesis by blast
qed

lemma utf8_decode_drop:
  assumes "\<forall>c. scalar_value c \<longrightarrow> \<not> prefix (utf8_encode c) (b # rest)"
  shows "utf8_decode Ignore (b # rest) = utf8_decode Ignore rest"
  using utf8_step_None [OF assms] by simp

lemma utf8_encode_lead: "scalar_value c \<Longrightarrow> hd (utf8_encode c) < 245"
  by (simp add: utf8_encode_def scalar_value_def less_mult_imp_div_less)

subsection \<open>The claim about the payload text\<close>

text \<open>
  Claim C4, amended. The payload bytes of a detection are converted to text by a lossy
  conversion that is defined on every sequence of bytes. Well-formed UTF-8 is kept: bytes
  that begin with the encoding of a text give that text, followed by the text of the bytes
  behind it, whatever these are. What is not well-formed is dropped: a byte at which no
  encoding of a code point begins contributes nothing, and nothing is put in its place, so
  that the encoding of the text is a subsequence of the payload bytes.
\<close>

theorem payload_text_lossy:
  "((\<forall>c \<in> set cps. scalar_value c) \<and> map unat valid = concat (map utf8_encode cps) \<longrightarrow>
      decode_utf8 (valid @ rest) Ignore = cps @ decode_utf8 rest Ignore)
   \<and> ((\<forall>c. scalar_value c \<longrightarrow> \<not> prefix (utf8_encode c) (map unat (b # behind))) \<longrightarrow>
      decode_utf8 (b # behind) Ignore = decode_utf8 behind Ignore)
   \<and> subseq (concat (map utf8_encode (decode_utf8 bs Ignore))) (map unat bs)"
proof (intro conjI impI)
  assume "(\<forall>c \<in> set cps. scalar_value c) \<and> map unat valid = concat (map utf8_encode cps)"
  then show "decode_utf8 (valid @ rest) Ignore = cps @ decode_utf8 rest Ignore"
    using utf8_decode_encode [of cps Ignore "map unat rest"] by (simp add: decode_utf8_def)
next
  assume "\<forall>c. scalar_value c \<longrightarrow> \<not> prefix (utf8_encode c) (map unat (b # behind))"
  then show "decode_utf8 (b # behind) Ignore = decode_utf8 behind Ignore"
    using utf8_decode_drop [of "unat b" "map unat behind"] by (simp add: decode_utf8_def)
next
  show "subseq (concat (map utf8_encode (decode_utf8 bs Ignore))) (map unat bs)"
    unfolding decode_utf8_def by (rule utf8_decode_subseq)
qed

theorem payload_text_lossy_witness:
  "scalar_value 8364
   \<and> map unat [0xE2, 0x82, 0xAC :: byte] = concat (map utf8_encode [8364])
   \<and> decode_utf8 ([0xE2, 0x82, 0xAC] @ [0xFF, 0x62]) Ignore = [8364] @ decode_utf8 [0xFF, 0x62] Ignore
   \<and> \<not> (\<exists>c. scalar_value c \<and> prefix (utf8_encode c) (map unat [0xFF, 0x62 :: byte]))
   \<and> decode_utf8 [0xFF, 0x62] Ignore = decode_utf8 [0x62] Ignore
   \<and> decode_utf8 [0xE2, 0x82, 0xAC, 0xFF, 0x62] Ignore = [8364, 98]
   \<and> subseq (concat (map utf8_encode (decode_utf8 [0xE2, 0x82, 0xAC, 0xFF, 0x62] Ignore)))
        (map unat [0xE2, 0x82, 0xAC, 0xFF, 0x62 :: byte])"
proof -
  have euro: "(\<forall>c \<in> set [8364]. scalar_value c)
      \<and> map unat [0xE2, 0x82, 0xAC :: byte] = concat (map utf8_encode [8364])"
    by (simp add: scalar_value_def utf8_encode_def)
  have none: "\<forall>c. scalar_value c \<longrightarrow> \<not> prefix (utf8_encode c) (map unat [0xFF, 0x62 :: byte])"
  proof (intro allI impI notI)
    fix c
    assume "scalar_value c" and p: "prefix (utf8_encode c) (map unat [0xFF, 0x62 :: byte])"
    then have "hd (utf8_encode c) < 245" by (simp add: utf8_encode_lead)
    moreover from p utf8_encode_nonempty [of c] have "hd (utf8_encode c) = 255"
      by (cases "utf8_encode c") simp_all
    ultimately show False by simp
  qed
  note t = payload_text_lossy [of "[8364]" "[0xE2, 0x82, 0xAC]" "[0xFF, 0x62]" "0xFF" "[0x62]"
      "[0xE2, 0x82, 0xAC, 0xFF, 0x62]"]
  from t euro have kept: "decode_utf8 ([0xE2, 0x82, 0xAC] @ [0xFF, 0x62]) Ignore
      = [8364] @ decode_utf8 [0xFF, 0x62] Ignore"
    by blast
  from t none have dropped: "decode_utf8 [0xFF, 0x62] Ignore = decode_utf8 [0x62] Ignore"
    by blast
  from t have sub: "subseq (concat (map utf8_encode (decode_utf8 [0xE2, 0x82, 0xAC, 0xFF, 0x62] Ignore)))
        (map unat [0xE2, 0x82, 0xAC, 0xFF, 0x62 :: byte])"
    by blast
  from none have none': "\<not> (\<exists>c. scalar_value c
      \<and> prefix (utf8_encode c) (map unat [0xFF, 0x62 :: byte]))"
    by blast
  have all: "decode_utf8 [0xE2, 0x82, 0xAC, 0xFF, 0x62] Ignore = [8364, 98]"
    by (simp add: decode_utf8_def utf8_step_def continuation_def second_of_3_def)
  from euro have s: "scalar_value 8364"
    and e: "map unat [0xE2, 0x82, 0xAC :: byte] = concat (map utf8_encode [8364])"
    by simp_all
  from s e kept none' dropped all sub show ?thesis
    by (intro conjI)
qed

text \<open>
  Claim C4 as stated fails: an invalid byte is not replaced. The payload \<open>a\<close>, \<open>0xFF\<close>, \<open>b\<close>
  becomes the text \<open>ab\<close>, the text of the payload \<open>a\<close>, \<open>b\<close>; a conversion that replaces gives
  \<open>a\<close>, U+FFFD, \<open>b\<close>.
\<close>

theorem payload_text_not_replaced:
  "decode_utf8 [0x61, 0xFF, 0x62] Ignore = lit ''ab''
   \<and> decode_utf8 [0x61, 0xFF, 0x62] Ignore = decode_utf8 [0x61, 0x62] Ignore
   \<and> spec_payload_text [0x61, 0xFF, 0x62] = [97, 65533, 98]
   \<and> obj_data sample_broken = [0x61, 0xFF, 0x62]
   \<and> decode_utf8 (obj_data sample_broken) Ignore \<noteq> spec_payload_text (obj_data sample_broken)"
  by (simp add: decode_utf8_def spec_payload_text_def utf8_step_def lit_def sample_broken_def)

end
